theory Spec2Isabelle
  imports Complex_Main "HOL-Library.Sublist"
begin

section \<open>Python values\<close>

text \<open>
  The values that flow through \<^verbatim>\<open>backend/services.py\<close>: column values of the rows
  returned by \<^verbatim>\<open>Neo4jGraph.query\<close>, property bags, and the chain's result dictionary.
  A \<^verbatim>\<open>dict\<close> is an association list in insertion order (its keys are strings, as
  column and property names are); \<^verbatim>\<open>neo4j.time.Date\<close> and \<^verbatim>\<open>neo4j.time.DateTime\<close>
  are \<open>PTemporal\<close>; an object of any other class is \<open>POther\<close>, which carries a tag and
  the object's truth value.
\<close>

datatype pyfloat = Finite real | Infinite bool | NaN

datatype pyval =
    PNone
  | PBool bool
  | PInt int
  | PFloat pyfloat
  | PStr string
  | PTemporal string
  | PDict "(string \<times> pyval) list"
  | PList "pyval list"
  | PTuple "pyval list"
  | POther string bool

type_synonym pydict = "(string \<times> pyval) list"

text \<open>
  The builtins \<^verbatim>\<open>str\<close> and \<^verbatim>\<open>hash\<close> are not code of the repository. They are
  parameters of the model: \<open>str_of\<close> is \<^verbatim>\<open>str(v)\<close> for a value that is not a string
  already, \<open>hash_of d\<close> is \<^verbatim>\<open>str(hash(frozenset(d.items())))\<close>, with \<open>None\<close> where
  \<^verbatim>\<open>hash\<close> raises \<^verbatim>\<open>TypeError\<close> (an unhashable property value such as a list).
\<close>

record builtins =
  str_of :: "pyval \<Rightarrow> string"
  hash_of :: "pydict \<Rightarrow> string option"

text \<open>\<^verbatim>\<open>str(v)\<close>, which is also what an f-string writes for \<^verbatim>\<open>{v}\<close>.\<close>

definition py_str :: "builtins \<Rightarrow> pyval \<Rightarrow> string" where
  "py_str b v = (case v of PStr s \<Rightarrow> s | _ \<Rightarrow> str_of b v)"

text \<open>
  Truth value testing, as \<^verbatim>\<open>or\<close> and \<^verbatim>\<open>if\<close> apply it. The temporal classes define
  neither \<^verbatim>\<open>__bool__\<close> nor \<^verbatim>\<open>__len__\<close>, so their instances are true.
\<close>

fun truthy :: "pyval \<Rightarrow> bool" where
  "truthy PNone = False"
| "truthy (PBool p) = p"
| "truthy (PInt n) = (n \<noteq> 0)"
| "truthy (PFloat x) = (x \<noteq> Finite 0)"
| "truthy (PStr s) = (s \<noteq> [])"
| "truthy (PTemporal t) = True"
| "truthy (PDict kvs) = (kvs \<noteq> [])"
| "truthy (PList xs) = (xs \<noteq> [])"
| "truthy (PTuple xs) = (xs \<noteq> [])"
| "truthy (POther s t) = t"

text \<open>\<^verbatim>\<open>d.get(k)\<close> and \<^verbatim>\<open>d.get(k, default)\<close>.\<close>

definition dict_get_default :: "pydict \<Rightarrow> string \<Rightarrow> pyval \<Rightarrow> pyval" where
  "dict_get_default d k dflt = (case map_of d k of None \<Rightarrow> dflt | Some v \<Rightarrow> v)"

definition dict_get :: "pydict \<Rightarrow> string \<Rightarrow> pyval" where
  "dict_get d k = dict_get_default d k PNone"

text \<open>\<^verbatim>\<open>a or b\<close>: the first operand when it is true, the second otherwise.\<close>

definition py_or :: "pyval \<Rightarrow> pyval \<Rightarrow> pyval" where
  "py_or a c = (if truthy a then a else c)"

text \<open>
  A raised exception: whether it is an instance of \<^verbatim>\<open>Exception\<close>, which is what
  \<^verbatim>\<open>except Exception\<close> catches, or only of \<^verbatim>\<open>BaseException\<close> (\<^verbatim>\<open>asyncio.CancelledError\<close>,
  \<^verbatim>\<open>KeyboardInterrupt\<close>, \<^verbatim>\<open>SystemExit\<close>), and its text \<^verbatim>\<open>str(e)\<close>. A computation that
  may raise returns a sum, with \<open>Inl\<close> for the exception that leaves it.
\<close>

datatype exc_class = ExceptionInstance | BaseExceptionOnly

datatype py_exc = Raised exc_class string


section \<open>Text operations\<close>

text \<open>
  A Python \<^verbatim>\<open>str\<close> is a \<open>string\<close>. The character classes are the ASCII ones, which is
  what \<^verbatim>\<open>str.upper\<close>, \<^verbatim>\<open>str.strip\<close> and the pattern class \<^verbatim>\<open>\w\<close> are on ASCII
  query text; characters outside ASCII are treated as neither letters, word characters nor
  whitespace. This is a restriction of the model to ASCII queries: on other text Python
  differs, since \<^verbatim>\<open>str.upper\<close> maps some letters outside ASCII and can change the length
  of the text (which moves every index then used on the original query), \<^verbatim>\<open>\w\<close> accepts
  letters and digits of any script, and \<^verbatim>\<open>str.strip\<close> also removes whitespace such as
  U+0085 and U+00A0.
\<close>

definition ascii_lowercase :: string where
  "ascii_lowercase = ''abcdefghijklmnopqrstuvwxyz''"

definition ascii_uppercase :: string where
  "ascii_uppercase = ''ABCDEFGHIJKLMNOPQRSTUVWXYZ''"

definition is_word :: "char \<Rightarrow> bool" where
  "is_word c = (c \<in> set (ascii_lowercase @ ascii_uppercase @ ''0123456789_''))"

definition is_space :: "char \<Rightarrow> bool" where
  "is_space c = (c \<in> set [CHR '' '', CHR 0x09, CHR 0x0A, CHR 0x0B, CHR 0x0C, CHR 0x0D,
                          CHR 0x1C, CHR 0x1D, CHR 0x1E, CHR 0x1F])"

definition to_upper :: "char \<Rightarrow> char" where
  "to_upper c = (case map_of (zip ascii_lowercase ascii_uppercase) c of Some u \<Rightarrow> u | None \<Rightarrow> c)"

definition to_lower :: "char \<Rightarrow> char" where
  "to_lower c = (case map_of (zip ascii_uppercase ascii_lowercase) c of Some l \<Rightarrow> l | None \<Rightarrow> c)"

definition upper :: "string \<Rightarrow> string" where
  "upper s = map to_upper s"

definition capitalize :: "string \<Rightarrow> string" where
  "capitalize s = (case s of [] \<Rightarrow> [] | c # cs \<Rightarrow> to_upper c # map to_lower cs)"

definition strip :: "string \<Rightarrow> string" where
  "strip s = rev (dropWhile is_space (rev (dropWhile is_space s)))"

text \<open>\<^verbatim>\<open>s[i:j]\<close> for indices between \<open>0\<close> and \<open>len(s)\<close>; empty when \<open>j \<le> i\<close>.\<close>

definition slice :: "string \<Rightarrow> nat \<Rightarrow> nat \<Rightarrow> string" where
  "slice s i j = drop i (take j s)"

text \<open>
  \<^verbatim>\<open>s.find(sub, start)\<close>: the lowest index from \<open>start\<close> on at which \<open>sub\<close> occurs. The
  result \<open>-1\<close> of Python is \<open>None\<close> here, so the test \<^verbatim>\<open>idx != -1\<close> is a case
  distinction. \<^verbatim>\<open>sub in s\<close> is \<open>contains\<close>.
\<close>

fun find_aux :: "string \<Rightarrow> string \<Rightarrow> nat \<Rightarrow> nat option" where
  "find_aux sub [] i = (if sub = [] then Some i else None)"
| "find_aux sub (c # cs) i = (if prefix sub (c # cs) then Some i else find_aux sub cs (Suc i))"

definition str_find :: "string \<Rightarrow> string \<Rightarrow> nat \<Rightarrow> nat option" where
  "str_find s sub start = (if start \<le> length s then find_aux sub (drop start s) start else None)"

definition contains :: "string \<Rightarrow> string \<Rightarrow> bool" where
  "contains sub s = (str_find s sub 0 \<noteq> None)"

text \<open>\<^verbatim>\<open>sep.join(parts)\<close>.\<close>

fun join :: "string \<Rightarrow> string list \<Rightarrow> string" where
  "join sep [] = []"
| "join sep [x] = x"
| "join sep (x # y # ys) = x @ sep @ join sep (y # ys)"

text \<open>\<^verbatim>\<open>list(dict.fromkeys(xs))\<close>: duplicates removed, the first occurrence kept, in order.\<close>

definition fromkeys :: "string list \<Rightarrow> string list" where
  "fromkeys xs = foldl (\<lambda>d k. if k \<in> set d then d else d @ [k]) [] xs"


section \<open>The two patterns\<close>

text \<open>
  A matcher tries a pattern at the start of a text and returns the first group and the
  text after the match. \<open>match_node\<close> is
  \<^verbatim>\<open>\((\w+)(?::[\w]+(?:\|[\w]+)*)?\)\<close> and \<open>match_rel\<close> is \<^verbatim>\<open>\[(\w+)(?::[\w]+)?\]\<close>.
  After a run of word characters both patterns ask for a character that is not a word
  character, so only the longest run can match and backtracking finds nothing else.
  \<open>alt_types\<close> is the tail \<^verbatim>\<open>(?:\|[\w]+)*\)\<close> of the node pattern.
\<close>

function alt_types :: "string \<Rightarrow> string option" where
  "alt_types [] = None"
| "alt_types (c # cs) =
     (if c = CHR '')'' then Some cs
      else if c = CHR ''|'' \<and> takeWhile is_word cs \<noteq> [] then alt_types (dropWhile is_word cs)
      else None)"
  by pat_completeness auto
termination
  by (relation "measure length") (auto simp: length_dropWhile_le less_Suc_eq_le)

definition match_node :: "string \<Rightarrow> (string \<times> string) option" where
  "match_node s =
     (case s of [] \<Rightarrow> None
      | c # cs \<Rightarrow>
          if c \<noteq> CHR ''('' \<or> takeWhile is_word cs = [] then None
          else (case dropWhile is_word cs of [] \<Rightarrow> None
                | d # ds \<Rightarrow>
                    if d = CHR '')'' then Some (takeWhile is_word cs, ds)
                    else if d = CHR '':'' \<and> takeWhile is_word ds \<noteq> []
                    then map_option (Pair (takeWhile is_word cs)) (alt_types (dropWhile is_word ds))
                    else None))"

definition match_rel :: "string \<Rightarrow> (string \<times> string) option" where
  "match_rel s =
     (case s of [] \<Rightarrow> None
      | c # cs \<Rightarrow>
          if c \<noteq> CHR ''['' \<or> takeWhile is_word cs = [] then None
          else (case dropWhile is_word cs of [] \<Rightarrow> None
                | d # ds \<Rightarrow>
                    if d = CHR '']'' then Some (takeWhile is_word cs, ds)
                    else if d = CHR '':'' \<and> takeWhile is_word ds \<noteq> []
                    then (case dropWhile is_word ds of [] \<Rightarrow> None
                          | e # es \<Rightarrow> if e = CHR '']'' then Some (takeWhile is_word cs, es) else None)
                    else None))"

text \<open>
  \<^verbatim>\<open>re.findall\<close> with one group: scan from the left, at a match keep the group and go on
  after the match, otherwise move one character on. The scan also moves on by one
  character should a match consume nothing; the two matchers above always consume.
\<close>

function findall :: "(string \<Rightarrow> (string \<times> string) option) \<Rightarrow> string \<Rightarrow> string list" where
  "findall m [] = []"
| "findall m (c # cs) =
     (case m (c # cs) of
        None \<Rightarrow> findall m cs
      | Some (g, rest) \<Rightarrow> g # findall m (if length rest \<le> length cs then rest else cs))"
  by pat_completeness auto
termination
  by (relation "measure (\<lambda>(m, s). length s)") auto


section \<open>Visualization query rewriter and pattern extractor\<close>

text \<open>
  The loop over \<^verbatim>\<open>end_keywords\<close> that both functions run: the least index, from the
  match keyword on, of a terminating keyword, or the length of the text.
\<close>

definition end_keywords :: "string list" where
  "end_keywords = [''WHERE'', ''RETURN'', ''ORDER BY'', ''LIMIT'', ''WITH'']"

definition find_pattern_end :: "string \<Rightarrow> nat \<Rightarrow> nat \<Rightarrow> nat" where
  "find_pattern_end query_upper match_idx n =
     foldl (\<lambda>pattern_end keyword.
              case str_find query_upper keyword match_idx of
                Some idx \<Rightarrow> if idx < pattern_end then idx else pattern_end
              | None \<Rightarrow> pattern_end)
           n end_keywords"

definition labels_column :: "string \<Rightarrow> string" where
  "labels_column item = ''labels('' @ item @ '') as '' @ item @ ''_labels''"

text \<open>The loop that fills \<^verbatim>\<open>return_parts\<close>.\<close>

definition return_parts :: "string list \<Rightarrow> string list \<Rightarrow> string list" where
  "return_parts nodes return_items =
     concat (map (\<lambda>item. if item \<in> set nodes then [item, labels_column item] else [item]) return_items)"

text \<open>
  \<^verbatim>\<open>GraphQAService._create_graph_query\<close>. The test \<^verbatim>\<open>"MATCH" not in query_upper\<close> and
  the \<^verbatim>\<open>find\<close> after it are one case distinction. No operation in the body raises on a
  string, so the \<^verbatim>\<open>except\<close> branch has no counterpart.
\<close>

definition create_graph_query :: "string \<Rightarrow> string" where
  "create_graph_query original_query =
     (let query_upper = upper original_query in
      case str_find query_upper ''MATCH'' 0 of
        None \<Rightarrow> original_query
      | Some match_idx \<Rightarrow>
          let pattern_end = find_pattern_end query_upper match_idx (length original_query);
              match_pattern = strip (slice original_query match_idx pattern_end);
              where_idx = str_find query_upper ''WHERE'' match_idx;
              return_idx = str_find query_upper ''RETURN'' match_idx;
              where_clause =
                (case where_idx of
                   None \<Rightarrow> []
                 | Some w \<Rightarrow>
                     (case return_idx of
                        None \<Rightarrow> '' '' @ strip (slice original_query w (length original_query))
                      | Some r \<Rightarrow> if w < r then '' '' @ strip (slice original_query w r) else []));
              nodes = fromkeys (findall match_node match_pattern);
              rels = fromkeys (findall match_rel match_pattern);
              return_items = nodes @ rels
          in if return_items \<noteq> []
             then match_pattern @ where_clause @ '' RETURN '' @
                  join '', '' (return_parts nodes return_items) @ '' LIMIT 50''
             else original_query)"

text \<open>
  \<^verbatim>\<open>GraphQAService._extract_variables_from_pattern\<close>. It returns two Python sets, which
  have no order; the match pattern is not stripped here.
\<close>

definition extract_variables_from_pattern :: "string \<Rightarrow> string set \<times> string set" where
  "extract_variables_from_pattern cypher_query =
     (let query_upper = upper cypher_query in
      case str_find query_upper ''MATCH'' 0 of
        None \<Rightarrow> ({}, {})
      | Some match_idx \<Rightarrow>
          let pattern_end = find_pattern_end query_upper match_idx (length cypher_query);
              match_pattern = slice cypher_query match_idx pattern_end
          in (set (findall match_node match_pattern), set (findall match_rel match_pattern)))"

text \<open>
  The parts of the rewritten query, named for the statements below: the match clause and
  the where clause as the rewriter cuts them out, and the node and relationship variable
  names in first-seen order without duplicates.
\<close>

definition match_clause :: "string \<Rightarrow> string" where
  "match_clause q =
     (case str_find (upper q) ''MATCH'' 0 of
        None \<Rightarrow> []
      | Some i \<Rightarrow> strip (slice q i (find_pattern_end (upper q) i (length q))))"

definition where_clause :: "string \<Rightarrow> string" where
  "where_clause q =
     (case str_find (upper q) ''MATCH'' 0 of
        None \<Rightarrow> []
      | Some i \<Rightarrow>
          (case str_find (upper q) ''WHERE'' i of
             None \<Rightarrow> []
           | Some w \<Rightarrow>
               (case str_find (upper q) ''RETURN'' i of
                  None \<Rightarrow> '' '' @ strip (slice q w (length q))
                | Some r \<Rightarrow> if w < r then '' '' @ strip (slice q w r) else [])))"

definition node_names :: "string \<Rightarrow> string list" where
  "node_names q = fromkeys (findall match_node (match_clause q))"

definition rel_names :: "string \<Rightarrow> string list" where
  "rel_names q = fromkeys (findall match_rel (match_clause q))"

text \<open>
  The return list as the specification words it: every node variable followed by its
  labels column, then every relationship variable alone.
\<close>

definition spec_return_items :: "string list \<Rightarrow> string list \<Rightarrow> string list" where
  "spec_return_items nodes rels = concat (map (\<lambda>v. [v, labels_column v]) nodes) @ rels"

text \<open>The queries used as examples.\<close>

definition query_acted_in :: string where
  "query_acted_in = ''MATCH (p:Person)-[r:ACTED_IN]->(m:Movie) RETURN p.name''"

definition query_acted_in_reversed :: string where
  "query_acted_in_reversed = ''MATCH (m:Movie)<-[r:ACTED_IN]-(p:Person) RETURN p.name''"

definition query_released :: string where
  "query_released = ''MATCH (p:Person)-[r:ACTED_IN]->(m:Movie) WHERE m.released > 1995 RETURN m.title''"

definition query_same_name :: string where
  "query_same_name = ''MATCH (a)-[a]->(b) RETURN a''"

definition query_no_match :: string where
  "query_no_match = ''RETURN 1 AS x''"


section \<open>Property serializer\<close>

text \<open>
  \<^verbatim>\<open>GraphQAService._serialize_property\<close>, branch by branch in the order of its
  \<^verbatim>\<open>if\<close>/\<^verbatim>\<open>elif\<close> chain. \<^verbatim>\<open>bool\<close> is a subclass of \<^verbatim>\<open>int\<close>; both pass through. A tuple
  comes back as a list, since the comprehension builds one.
\<close>

fun serialize_property :: "builtins \<Rightarrow> pyval \<Rightarrow> pyval" where
  "serialize_property b PNone = PNone"
| "serialize_property b (PTemporal t) = PStr (str_of b (PTemporal t))"
| "serialize_property b (PDict kvs) = PDict (map (\<lambda>(k, v). (k, serialize_property b v)) kvs)"
| "serialize_property b (PList xs) = PList (map (serialize_property b) xs)"
| "serialize_property b (PTuple xs) = PList (map (serialize_property b) xs)"
| "serialize_property b (PInt n) = PInt n"
| "serialize_property b (PFloat x) = PFloat x"
| "serialize_property b (PStr s) = PStr s"
| "serialize_property b (PBool p) = PBool p"
| "serialize_property b (POther s t) = PStr (str_of b (POther s t))"

text \<open>The dict comprehension used for property bags: \<^verbatim>\<open>{k: serialize(v) for k, v in d.items()}\<close>.\<close>

definition serialize_items :: "builtins \<Rightarrow> pydict \<Rightarrow> pydict" where
  "serialize_items b d = map (\<lambda>(k, v). (k, serialize_property b v)) d"

text \<open>A value that \<^verbatim>\<open>json\<close> can write: no temporal object, tuple or foreign object in it.\<close>

fun json_safe :: "pyval \<Rightarrow> bool" where
  "json_safe (PTemporal t) = False"
| "json_safe (PTuple xs) = False"
| "json_safe (POther s t) = False"
| "json_safe (PDict kvs) = list_all (\<lambda>kv. json_safe (snd kv)) kvs"
| "json_safe (PList xs) = list_all json_safe xs"
| "json_safe v = True"

section \<open>Graph reconstructor\<close>

text \<open>
  The dictionaries that \<^verbatim>\<open>_extract_graph_data\<close> builds for a node and for a
  relationship (keys \<^verbatim>\<open>id\<close>, \<^verbatim>\<open>label\<close>, \<^verbatim>\<open>labels\<close>, \<^verbatim>\<open>properties\<close> and \<^verbatim>\<open>type\<close>,
  \<^verbatim>\<open>startNode\<close>, \<^verbatim>\<open>endNode\<close>, \<^verbatim>\<open>properties\<close>), the payload it returns, and its two
  accumulators: the dict \<^verbatim>\<open>nodes\<close> keyed by synthetic id, in insertion order, and the
  list \<^verbatim>\<open>relationships\<close>.
\<close>

record GraphNode =
  n_id :: string
  n_label :: string
  n_labels :: "pyval list"
  n_properties :: pydict

record GraphRelationship =
  r_type :: pyval
  r_startNode :: string
  r_endNode :: string
  r_properties :: pydict

record GraphPayload =
  p_nodes :: "GraphNode list"
  p_relationships :: "GraphRelationship list"

record graph_acc =
  nodes :: "(string \<times> GraphNode) list"
  relationships :: "GraphRelationship list"

type_synonym raw_row = pydict

text \<open>
  First pass over a row: \<^verbatim>\<open>labels_map\<close>, from the columns whose name ends in
  \<^verbatim>\<open>_labels\<close> and whose value is a list; the key is the name without its last seven
  characters.
\<close>

definition collect_labels :: "raw_row \<Rightarrow> (string \<rightharpoonup> pyval list)" where
  "collect_labels row =
     foldl (\<lambda>labels_map (key, value).
              if suffix ''_labels'' key
              then (case value of
                      PList ls \<Rightarrow> labels_map(take (length key - 7) key \<mapsto> ls)
                    | _ \<Rightarrow> labels_map)
              else labels_map)
           Map.empty row"

text \<open>
  The identifying property of a node:
  \<^verbatim>\<open>value.get('name') or value.get('id') or value.get('title') or str(hash(frozenset(value.items())))\<close>.
  The hash is computed only when the three properties are all false, and it may raise;
  \<open>None\<close> is that exception, which the \<^verbatim>\<open>try\<close> around the node branch catches.
\<close>

definition node_id_prop :: "builtins \<Rightarrow> pydict \<Rightarrow> pyval option" where
  "node_id_prop b value =
     (let v = py_or (py_or (dict_get value ''name'') (dict_get value ''id'')) (dict_get value ''title'')
      in if truthy v then Some v else map_option PStr (hash_of b value))"

text \<open>The display label: \<^verbatim>\<open>value.get('name') or value.get('title') or value.get('id') or key\<close>.\<close>

definition display_label :: "string \<Rightarrow> pydict \<Rightarrow> pyval" where
  "display_label key value =
     py_or (py_or (py_or (dict_get value ''name'') (dict_get value ''title'')) (dict_get value ''id''))
           (PStr key)"

text \<open>The node branch, for a column \<open>key\<close> whose value is the property bag \<open>value\<close>.\<close>

definition add_node :: "builtins \<Rightarrow> (string \<rightharpoonup> pyval list) \<Rightarrow> graph_acc \<Rightarrow> string \<Rightarrow> pydict \<Rightarrow> graph_acc" where
  "add_node b labels_map acc key value =
     (case node_id_prop b value of
        None \<Rightarrow> acc
      | Some p \<Rightarrow>
          let node_id = key @ ''_'' @ py_str b p in
          if node_id \<in> fst ` set (nodes acc) then acc
          else
            let label = display_label key value;
                neo4j_labels = (case labels_map key of Some ls \<Rightarrow> ls | None \<Rightarrow> [PStr (capitalize key)]);
                serialized_props = serialize_items b value
            in acc\<lparr>nodes := nodes acc @
                 [(node_id, \<lparr>n_id = node_id, n_label = py_str b label, n_labels = neo4j_labels,
                             n_properties = serialized_props\<rparr>)]\<rparr>)"

text \<open>The relationship branch. Nothing in it raises.\<close>

definition add_relationship :: "builtins \<Rightarrow> graph_acc \<Rightarrow> pydict \<Rightarrow> graph_acc" where
  "add_relationship b acc value =
     (let rel_type = dict_get_default value ''type'' (PStr ''RELATED_TO'');
          start_id = dict_get value ''start'';
          end_id = dict_get value ''end''
      in if truthy start_id \<and> truthy end_id
         then
           let rel_props = serialize_items b (filter (\<lambda>(k, v). k \<notin> set [''type'', ''start'', ''end'']) value)
           in acc\<lparr>relationships := relationships acc @
                [\<lparr>r_type = rel_type, r_startNode = py_str b start_id, r_endNode = py_str b end_id,
                  r_properties = rel_props\<rparr>]\<rparr>
         else acc)"

text \<open>Second pass: one column of a row. \<open>node_vars\<close> and \<open>rel_vars\<close> are Python sets.\<close>

definition process_value ::
  "builtins \<Rightarrow> string set \<Rightarrow> string set \<Rightarrow> (string \<rightharpoonup> pyval list) \<Rightarrow> graph_acc \<Rightarrow> string \<times> pyval \<Rightarrow> graph_acc" where
  "process_value b node_vars rel_vars labels_map acc kv =
     (let key = fst kv; value = snd kv in
      if suffix ''_labels'' key then acc
      else if value = PNone then acc
      else (case value of
              PDict d \<Rightarrow>
                if key \<in> node_vars then add_node b labels_map acc key d
                else if key \<in> rel_vars then add_relationship b acc d
                else acc
            | _ \<Rightarrow> acc))"

definition process_record :: "builtins \<Rightarrow> string set \<Rightarrow> string set \<Rightarrow> graph_acc \<Rightarrow> raw_row \<Rightarrow> graph_acc" where
  "process_record b node_vars rel_vars acc row =
     foldl (process_value b node_vars rel_vars (collect_labels row)) acc row"

definition process_rows :: "builtins \<Rightarrow> string set \<Rightarrow> string set \<Rightarrow> graph_acc \<Rightarrow> raw_row list \<Rightarrow> graph_acc" where
  "process_rows b node_vars rel_vars acc rows = foldl (process_record b node_vars rel_vars) acc rows"

definition empty_acc :: graph_acc where
  "empty_acc = \<lparr>nodes = [], relationships = []\<rparr>"

text \<open>
  The reconstruction proper: the loop over the rows from empty accumulators, and the
  decision at the end between a payload and \<^verbatim>\<open>None\<close>.
\<close>

definition reconstruct :: "builtins \<Rightarrow> string set \<Rightarrow> string set \<Rightarrow> raw_row list \<Rightarrow> GraphPayload option" where
  "reconstruct b node_vars rel_vars raw_result =
     (let acc = process_rows b node_vars rel_vars empty_acc raw_result;
          nodes_list = map snd (nodes acc)
      in if length nodes_list > 0 \<or> length (relationships acc) > 0
         then Some \<lparr>p_nodes = nodes_list, p_relationships = relationships acc\<rparr>
         else None)"

text \<open>
  \<^verbatim>\<open>GraphQAService._extract_graph_data\<close>. \<open>graph_query\<close> is \<^verbatim>\<open>self.graph.query\<close>, which
  returns the rows or raises. The outer \<^verbatim>\<open>except Exception\<close> turns an instance of
  \<^verbatim>\<open>Exception\<close> into the result \<^verbatim>\<open>None\<close>; any other exception leaves the function. The
  argument \<^verbatim>\<open>context\<close> is not read.
\<close>

definition extract_graph_data ::
  "builtins \<Rightarrow> (string \<Rightarrow> py_exc + raw_row list) \<Rightarrow> string \<Rightarrow> py_exc + GraphPayload option" where
  "extract_graph_data b graph_query cypher_query =
     (if \<not> contains ''MATCH'' (upper cypher_query) then Inr None
      else (case graph_query (create_graph_query cypher_query) of
              Inl (Raised ExceptionInstance e) \<Rightarrow> Inr None
            | Inl (Raised BaseExceptionOnly e) \<Rightarrow> Inl (Raised BaseExceptionOnly e)
            | Inr raw_result \<Rightarrow>
                let (node_vars, rel_vars) = extract_variables_from_pattern cypher_query
                in Inr (reconstruct b node_vars rel_vars raw_result)))"

text \<open>
  The statements below count the columns of a row that reach a branch. A column is a
  relationship binding when the relationship branch appends for it, and a binding at all
  when its name is one of the variables and its value is a property bag.
\<close>

definition appends_relationship :: "string set \<Rightarrow> string set \<Rightarrow> string \<times> pyval \<Rightarrow> bool" where
  "appends_relationship node_vars rel_vars kv =
     (case snd kv of
        PDict d \<Rightarrow> \<not> suffix ''_labels'' (fst kv) \<and> fst kv \<notin> node_vars \<and> fst kv \<in> rel_vars
                   \<and> truthy (dict_get d ''start'') \<and> truthy (dict_get d ''end'')
      | _ \<Rightarrow> False)"

definition is_binding :: "string set \<Rightarrow> string set \<Rightarrow> string \<times> pyval \<Rightarrow> bool" where
  "is_binding node_vars rel_vars kv =
     (case snd kv of PDict d \<Rightarrow> fst kv \<in> node_vars \<or> fst kv \<in> rel_vars | _ \<Rightarrow> False)"


section \<open>Orchestrator\<close>

text \<open>
  \<^verbatim>\<open>GraphQAService.query\<close>. The service holds the chain (\<open>None\<close> before it is
  initialised) and the graph executor. \<open>ainvoke\<close> returns the chain's result dictionary
  or raises. \<open>query\<close> returns a response, or an exception leaves it (\<open>Inl\<close>). The
  response is either the dictionary with the single key \<^verbatim>\<open>error\<close> or the dictionary with
  the keys \<^verbatim>\<open>answer\<close>, \<^verbatim>\<open>generated_cypher\<close>, \<^verbatim>\<open>graph_data\<close> and \<^verbatim>\<open>error\<close> (which is
  \<^verbatim>\<open>None\<close>).
\<close>

record service =
  chain :: "(string \<Rightarrow> py_exc + pydict) option"
  graph :: "string \<Rightarrow> py_exc + raw_row list"

datatype response =
    ErrorResponse string
  | AnswerResponse pyval pyval "GraphPayload option"

definition response_keys :: "response \<Rightarrow> string list" where
  "response_keys r =
     (case r of
        ErrorResponse e \<Rightarrow> [''error'']
      | AnswerResponse a c g \<Rightarrow> [''answer'', ''generated_cypher'', ''graph_data'', ''error''])"

definition error_of :: "response \<Rightarrow> string option" where
  "error_of r = (case r of ErrorResponse e \<Rightarrow> Some e | AnswerResponse a c g \<Rightarrow> None)"

definition graph_data_of :: "response \<Rightarrow> GraphPayload option" where
  "graph_data_of r = (case r of ErrorResponse e \<Rightarrow> None | AnswerResponse a c g \<Rightarrow> g)"

definition syntax_error_marker :: string where
  "syntax_error_marker = ''Neo.ClientError.Statement.SyntaxError''"

definition rephrase_message :: string where
  "rephrase_message = ''The LLM generated an invalid Cypher query. Please try rephrasing your question.''"

text \<open>
  The call \<^verbatim>\<open>self._extract_graph_data(context, generated_cypher)\<close>: a query that is not a
  string has no \<^verbatim>\<open>upper\<close>, and the \<^verbatim>\<open>AttributeError\<close> is caught inside.
\<close>

definition extract_graph_data_of :: "builtins \<Rightarrow> service \<Rightarrow> pyval \<Rightarrow> py_exc + GraphPayload option" where
  "extract_graph_data_of b self generated_cypher =
     (case generated_cypher of
        PStr q \<Rightarrow> extract_graph_data b (graph self) q
      | _ \<Rightarrow> Inr None)"

text \<open>
  The block guarded by \<^verbatim>\<open>if result.get("intermediate_steps")\<close>, with its
  \<^verbatim>\<open>except (IndexError, KeyError, TypeError)\<close>: it yields \<^verbatim>\<open>generated_cypher\<close> and
  \<^verbatim>\<open>graph_data\<close>. Indexing raises one of the three exceptions unless the steps are a
  sequence whose first element is a dictionary with the key \<^verbatim>\<open>query\<close>; both variables
  then keep their initial values. An exception that leaves \<^verbatim>\<open>_extract_graph_data\<close> is
  none of the three, so it leaves the block as well.
\<close>

definition find_context :: "pydict \<Rightarrow> pyval list \<Rightarrow> pyval" where
  "find_context step0 more_steps =
     (let context = dict_get step0 ''context'' in
      if truthy context then context
      else (case more_steps of
              PDict step1 # rest \<Rightarrow> dict_get step1 ''context''
            | PList rows # rest \<Rightarrow> PList rows
            | _ \<Rightarrow> context))"

definition steps_of :: "pyval \<Rightarrow> pyval list" where
  "steps_of v = (case v of PList xs \<Rightarrow> xs | PTuple xs \<Rightarrow> xs | _ \<Rightarrow> [])"

definition read_steps ::
  "builtins \<Rightarrow> service \<Rightarrow> pyval \<Rightarrow> py_exc + pyval \<times> GraphPayload option" where
  "read_steps b self intermediate_steps =
     (if \<not> truthy intermediate_steps then Inr (PStr ''No query generated.'', None)
      else (case steps_of intermediate_steps of
              PDict step0 # more_steps \<Rightarrow>
                (case map_of step0 ''query'' of
                   None \<Rightarrow> Inr (PStr ''No query generated.'', None)
                 | Some generated_cypher \<Rightarrow>
                     if truthy (find_context step0 more_steps)
                     then (case extract_graph_data_of b self generated_cypher of
                             Inl x \<Rightarrow> Inl x
                           | Inr graph_data \<Rightarrow> Inr (generated_cypher, graph_data))
                     else Inr (generated_cypher, None))
            | _ \<Rightarrow> Inr (PStr ''No query generated.'', None)))"

text \<open>
  The handler \<^verbatim>\<open>except Exception as e\<close> of \<^verbatim>\<open>query\<close>, which encloses the call of the
  chain and everything after it: an instance of \<^verbatim>\<open>Exception\<close> becomes an error response,
  any other exception is not caught and leaves \<^verbatim>\<open>query\<close>.
\<close>

definition handle_exception :: "py_exc \<Rightarrow> py_exc + response" where
  "handle_exception x =
     (case x of
        Raised ExceptionInstance e \<Rightarrow>
          if contains syntax_error_marker e then Inr (ErrorResponse rephrase_message)
          else Inr (ErrorResponse (''An error occurred: '' @ e))
      | Raised BaseExceptionOnly e \<Rightarrow> Inl (Raised BaseExceptionOnly e))"

definition query :: "builtins \<Rightarrow> service \<Rightarrow> string \<Rightarrow> py_exc + response" where
  "query b self question =
     (case chain self of
        None \<Rightarrow> Inr (ErrorResponse ''QA Chain is not initialized. Check server logs.'')
      | Some ainvoke \<Rightarrow>
          (case ainvoke question of
             Inl x \<Rightarrow> handle_exception x
           | Inr result \<Rightarrow>
               (case read_steps b self (dict_get result ''intermediate_steps'') of
                  Inl x \<Rightarrow> handle_exception x
                | Inr (generated_cypher, graph_data) \<Rightarrow>
                    Inr (AnswerResponse (dict_get_default result ''result'' (PStr ''No answer found.''))
                           generated_cypher graph_data))))"

text \<open>
  For the statements about nodes: the synthetic id that a column would insert, the ids
  of all columns of the rows, and the invariant of the dict \<^verbatim>\<open>nodes\<close> (each key once,
  each node stored under its own id).
\<close>

definition value_node_id :: "builtins \<Rightarrow> string set \<Rightarrow> string \<times> pyval \<Rightarrow> string option" where
  "value_node_id b node_vars kv =
     (case snd kv of
        PDict d \<Rightarrow>
          if \<not> suffix ''_labels'' (fst kv) \<and> fst kv \<in> node_vars
          then map_option (\<lambda>p. fst kv @ ''_'' @ py_str b p) (node_id_prop b d)
          else None
      | _ \<Rightarrow> None)"

definition wf_nodes :: "(string \<times> GraphNode) list \<Rightarrow> bool" where
  "wf_nodes ns = (distinct (map fst ns) \<and> list_all (\<lambda>kn. n_id (snd kn) = fst kn) ns)"

definition rows_node_ids :: "builtins \<Rightarrow> string set \<Rightarrow> raw_row list \<Rightarrow> string set" where
  "rows_node_ids b node_vars rows =
     (\<Union>row\<in>set rows. \<Union>kv\<in>set row. set_option (value_node_id b node_vars kv))"


section \<open>Example data\<close>

text \<open>
  One interpretation of the two builtins, for the examples: \<open>sample_str\<close> is \<^verbatim>\<open>str\<close> on
  \<^verbatim>\<open>None\<close>, booleans, integers, temporal values (whose tag is their text) and foreign
  objects (likewise), and a placeholder on floats and containers; \<open>sample_hash\<close> is a
  constant hash that raises on a bag with a list or a dictionary among its values.
\<close>

fun str_nat :: "nat \<Rightarrow> string" where
  "str_nat n = (if n < 10 then [''0123456789'' ! n] else str_nat (n div 10) @ [''0123456789'' ! (n mod 10)])"

definition sample_str :: "pyval \<Rightarrow> string" where
  "sample_str v =
     (case v of
        PNone \<Rightarrow> ''None''
      | PBool p \<Rightarrow> (if p then ''True'' else ''False'')
      | PInt n \<Rightarrow> (if n < 0 then ''-'' @ str_nat (nat (- n)) else str_nat (nat n))
      | PStr s \<Rightarrow> s
      | PTemporal t \<Rightarrow> t
      | POther s t \<Rightarrow> s
      | _ \<Rightarrow> ''<repr>'')"

definition sample_hash :: "pydict \<Rightarrow> string option" where
  "sample_hash d =
     (if list_ex (\<lambda>kv. case snd kv of PList xs \<Rightarrow> True | PDict kvs \<Rightarrow> True | _ \<Rightarrow> False) d
      then None else Some ''0'')"

definition sample_builtins :: builtins where
  "sample_builtins = \<lparr>str_of = sample_str, hash_of = sample_hash\<rparr>"

definition row_tom_hanks :: raw_row where
  "row_tom_hanks =
     [(''p'', PDict [(''name'', PStr ''Tom Hanks'')]), (''p_labels'', PList [PStr ''Person'']),
      (''m'', PDict [(''title'', PStr ''Big'')]), (''m_labels'', PList [PStr ''Movie''])]"

definition bag_acted_in :: pydict where
  "bag_acted_in = [(''type'', PStr ''ACTED_IN''), (''start'', PStr ''4:a:1''), (''end'', PStr ''4:a:2''),
                   (''roles'', PTuple [PStr ''Josh''])]"

definition bag_start_zero :: pydict where
  "bag_start_zero = [(''type'', PStr ''ACTED_IN''), (''start'', PInt 0), (''end'', PInt 5)]"

definition bag_id_title :: pydict where
  "bag_id_title = [(''id'', PStr ''tt0094737''), (''title'', PStr ''Big'')]"

definition payload_tom_hanks :: GraphPayload where
  "payload_tom_hanks =
     \<lparr>p_nodes =
        [\<lparr>n_id = ''p_Tom Hanks'', n_label = ''Tom Hanks'', n_labels = [PStr ''Person''],
          n_properties = [(''name'', PStr ''Tom Hanks'')]\<rparr>,
         \<lparr>n_id = ''m_Big'', n_label = ''Big'', n_labels = [PStr ''Movie''],
          n_properties = [(''title'', PStr ''Big'')]\<rparr>],
      p_relationships = []\<rparr>"

definition row_count :: raw_row where
  "row_count = [(''count(m)'', PInt 32)]"

definition relationship_acted_in :: GraphRelationship where
  "relationship_acted_in =
     \<lparr>r_type = PStr ''ACTED_IN'', r_startNode = ''4:a:1'', r_endNode = ''4:a:2'',
      r_properties = [(''roles'', PList [PStr ''Josh''])]\<rparr>"

definition bag_id_only :: pydict where
  "bag_id_only = [(''id'', PInt 7)]"

definition node_movie_big :: GraphNode where
  "node_movie_big =
     \<lparr>n_id = ''m_tt0094737'', n_label = ''Big'', n_labels = [PStr ''M''],
      n_properties = [(''id'', PStr ''tt0094737''), (''title'', PStr ''Big'')]\<rparr>"

definition bag_named_endpoints :: pydict where
  "bag_named_endpoints = [(''name'', PStr ''A''), (''start'', PStr ''1''), (''end'', PStr ''2'')]"

definition node_a :: GraphNode where
  "node_a = \<lparr>n_id = ''a_A'', n_label = ''A'', n_labels = [PStr ''A''],
             n_properties = [(''name'', PStr ''A''), (''start'', PStr ''1''), (''end'', PStr ''2'')]\<rparr>"

definition syntax_error_text :: string where
  "syntax_error_text = ''{code: Neo.ClientError.Statement.SyntaxError} {message: Invalid input}''"

definition service_syntax_error :: service where
  "service_syntax_error =
     \<lparr>chain = Some (\<lambda>question. Inl (Raised ExceptionInstance syntax_error_text)),
      graph = (\<lambda>text. Inr [])\<rparr>"

definition service_timeout :: service where
  "service_timeout =
     \<lparr>chain = Some (\<lambda>question. Inl (Raised ExceptionInstance ''Request timed out.'')),
      graph = (\<lambda>text. Inr [])\<rparr>"

definition service_cancelled :: service where
  "service_cancelled =
     \<lparr>chain = Some (\<lambda>question. Inl (Raised BaseExceptionOnly [])), graph = (\<lambda>text. Inr [])\<rparr>"

definition service_interrupted_graph :: service where
  "service_interrupted_graph =
     \<lparr>chain = Some (\<lambda>question. Inr
        [(''result'', PStr ''Tom Hanks.''),
         (''intermediate_steps'',
          PList [PDict [(''query'', PStr ''MATCH (p:Person) RETURN p.name''),
                        (''context'', PList [PDict [(''p.name'', PStr ''Tom Hanks'')]])]])]),
      graph = (\<lambda>text. Inl (Raised BaseExceptionOnly []))\<rparr>"

definition acc_tom_hanks :: graph_acc where
  "acc_tom_hanks = \<lparr>nodes = map (\<lambda>n. (n_id n, n)) (p_nodes payload_tom_hanks), relationships = []\<rparr>"

definition bag_tom_hanks_again :: pydict where
  "bag_tom_hanks_again = [(''name'', PStr ''Tom Hanks''), (''born'', PInt 1956)]"


section \<open>Properties of the serializer\<close>

lemma serialize_property_json_safe: "json_safe (serialize_property b v)"
  by (induction b v rule: serialize_property.induct)
     (auto simp: list_all_iff)

lemma serialize_property_idem:
  "serialize_property b (serialize_property b v) = serialize_property b v"
  by (induction b v rule: serialize_property.induct) auto

text \<open>
  Claim C8. The serializer is a total function on values (its recursion is on the
  structure of the value and has no failing branch) and it preserves structure:
  \<^verbatim>\<open>None\<close> maps to \<^verbatim>\<open>None\<close>; a temporal value maps to its text; a mapping is
  serialized value by value under the same keys in the same order; a list or a tuple is
  serialized element by element in order, as a list; integers, floats, strings and
  booleans are returned unchanged; any other value maps to its text.
\<close>

theorem serialize_property_total_structure:
  "serialize_property b PNone = PNone
   \<and> serialize_property b (PTemporal t) = PStr (str_of b (PTemporal t))
   \<and> serialize_property b (PDict kvs) = PDict (map (\<lambda>(k, v). (k, serialize_property b v)) kvs)
   \<and> (\<exists>kvs'. serialize_property b (PDict kvs) = PDict kvs' \<and> map fst kvs' = map fst kvs)
   \<and> serialize_property b (PList xs) = PList (map (serialize_property b) xs)
   \<and> serialize_property b (PTuple xs) = PList (map (serialize_property b) xs)
   \<and> serialize_property b (PInt n) = PInt n
   \<and> serialize_property b (PFloat x) = PFloat x
   \<and> serialize_property b (PStr s) = PStr s
   \<and> serialize_property b (PBool p) = PBool p
   \<and> serialize_property b (POther s' t') = PStr (str_of b (POther s' t'))
   \<and> json_safe (serialize_property b v)"
proof -
  have keys: "map fst (map (\<lambda>(k, v). (k, serialize_property b v)) kvs) = map fst kvs"
    by (induction kvs) auto
  show ?thesis
    using keys by (simp add: serialize_property_json_safe)
qed


section \<open>Properties of the text operations and the patterns\<close>

text \<open>
  Both matchers consume at least one character, so the scan of \<open>findall\<close> always goes
  on after the match.
\<close>

lemma alt_types_consumes: "alt_types s = Some r \<Longrightarrow> length r < length s"
proof (induction s rule: alt_types.induct)
  case 1
  then show ?case by simp
next
  case (2 c cs)
  show ?case
  proof (cases "c = CHR '')''")
    case True
    then show ?thesis using "2.prems" by auto
  next
    case False
    then have step: "c = CHR ''|''" "takeWhile is_word cs \<noteq> []"
      "alt_types (dropWhile is_word cs) = Some r"
      using "2.prems" by (auto split: if_splits)
    have "length r < length (dropWhile is_word cs)"
      using "2.IH" [OF False _ step(3)] step(1,2) by simp
    also have "\<dots> \<le> length cs"
      by (rule length_dropWhile_le)
    finally show ?thesis by simp
  qed
qed

lemma match_node_consumes:
  assumes m: "match_node s = Some (g, r)"
  shows "length r < length s"
proof (cases s)
  case Nil
  then show ?thesis using m by (simp add: match_node_def)
next
  case (Cons c cs)
  define D where "D = dropWhile is_word cs"
  have D: "length D \<le> length cs"
    unfolding D_def by (rule length_dropWhile_le)
  have m': "(if c \<noteq> CHR ''('' \<or> takeWhile is_word cs = [] then None
             else (case D of [] \<Rightarrow> None
                   | d # ds \<Rightarrow>
                       if d = CHR '')'' then Some (takeWhile is_word cs, ds)
                       else if d = CHR '':'' \<and> takeWhile is_word ds \<noteq> []
                       then map_option (Pair (takeWhile is_word cs)) (alt_types (dropWhile is_word ds))
                       else None)) = Some (g, r)"
    using m unfolding Cons match_node_def D_def by (simp only: list.case)
  then obtain d ds where dw: "D = d # ds"
    by (cases D) (auto split: if_splits)
  show ?thesis
  proof (cases "d = CHR '')''")
    case True
    then have "r = ds" using m' by (auto simp: dw split: if_splits)
    then show ?thesis using D by (simp add: Cons dw)
  next
    case False
    then have "alt_types (dropWhile is_word ds) = Some r"
      using m' by (auto simp: dw split: if_splits)
    then have "length r < length (dropWhile is_word ds)"
      by (rule alt_types_consumes)
    also have "\<dots> \<le> length ds" by (rule length_dropWhile_le)
    finally show ?thesis using D by (simp add: Cons dw)
  qed
qed

lemma match_rel_consumes:
  assumes m: "match_rel s = Some (g, r)"
  shows "length r < length s"
proof (cases s)
  case Nil
  then show ?thesis using m by (simp add: match_rel_def)
next
  case (Cons c cs)
  define D where "D = dropWhile is_word cs"
  have D: "length D \<le> length cs"
    unfolding D_def by (rule length_dropWhile_le)
  have m': "(if c \<noteq> CHR ''['' \<or> takeWhile is_word cs = [] then None
             else (case D of [] \<Rightarrow> None
                   | d # ds \<Rightarrow>
                       if d = CHR '']'' then Some (takeWhile is_word cs, ds)
                       else if d = CHR '':'' \<and> takeWhile is_word ds \<noteq> []
                       then (case dropWhile is_word ds of [] \<Rightarrow> None
                             | e # es \<Rightarrow> if e = CHR '']'' then Some (takeWhile is_word cs, es) else None)
                       else None)) = Some (g, r)"
    using m unfolding Cons match_rel_def D_def by (simp only: list.case)
  then obtain d ds where dw: "D = d # ds"
    by (cases D) (auto split: if_splits)
  show ?thesis
  proof (cases "d = CHR '']''")
    case True
    then have "r = ds" using m' by (auto simp: dw split: if_splits)
    then show ?thesis using D by (simp add: Cons dw)
  next
    case False
    define E where "E = dropWhile is_word ds"
    have E: "length E \<le> length ds"
      unfolding E_def by (rule length_dropWhile_le)
    have "(case E of [] \<Rightarrow> None
           | e # es \<Rightarrow> if e = CHR '']'' then Some (takeWhile is_word cs, es) else None) = Some (g, r)"
      using m' False unfolding dw E_def by (simp split: if_splits)
    then obtain e where "E = e # r"
      by (cases E) (auto split: if_splits)
    then show ?thesis using D E by (simp add: Cons dw)
  qed
qed

lemma findall_node_Cons:
  "findall match_node (c # cs) =
     (case match_node (c # cs) of None \<Rightarrow> findall match_node cs
      | Some (g, rest) \<Rightarrow> g # findall match_node rest)"
  using match_node_consumes [of "c # cs"]
  by (auto split: option.splits simp: less_Suc_eq_le)

lemma findall_rel_Cons:
  "findall match_rel (c # cs) =
     (case match_rel (c # cs) of None \<Rightarrow> findall match_rel cs
      | Some (g, rest) \<Rightarrow> g # findall match_rel rest)"
  using match_rel_consumes [of "c # cs"]
  by (auto split: option.splits simp: less_Suc_eq_le)

lemma find_aux_None_iff: "find_aux sub s i = None \<longleftrightarrow> \<not> sublist sub s"
proof (induction s arbitrary: i)
  case Nil
  then show ?case by simp
next
  case (Cons c cs)
  show ?case
  proof (cases sub)
    case Nil
    then show ?thesis by simp
  next
    case (Cons x xs)
    then show ?thesis using Cons.IH [of "Suc i"] by (simp add: sublist_Cons_right)
  qed
qed

lemma str_find_None_iff: "str_find s sub 0 = None \<longleftrightarrow> \<not> sublist sub s"
  by (simp add: str_find_def find_aux_None_iff)

lemma return_parts_of_nodes:
  "set xs \<subseteq> set ns \<Longrightarrow> return_parts ns xs = concat (map (\<lambda>v. [v, labels_column v]) xs)"
  by (induction xs) (auto simp: return_parts_def)

lemma return_parts_of_rels:
  "set xs \<inter> set ns = {} \<Longrightarrow> return_parts ns xs = xs"
  by (induction xs) (auto simp: return_parts_def)

lemma return_parts_append:
  "return_parts ns (xs @ ys) = return_parts ns xs @ return_parts ns ys"
  by (simp add: return_parts_def)

lemma create_graph_query_unfold:
  assumes "str_find (upper q) ''MATCH'' 0 = Some i"
  shows "create_graph_query q =
           (if node_names q @ rel_names q \<noteq> []
            then match_clause q @ where_clause q @ '' RETURN '' @
                 join '', '' (return_parts (node_names q) (node_names q @ rel_names q)) @ '' LIMIT 50''
            else q)"
  using assms
  by (simp add: create_graph_query_def match_clause_def where_clause_def node_names_def
        rel_names_def Let_def split: option.splits)

lemma space_not_special:
  "is_space c \<Longrightarrow> \<not> is_word c \<and> c \<noteq> CHR ''('' \<and> c \<noteq> CHR '')'' \<and> c \<noteq> CHR ''['' \<and> c \<noteq> CHR '']''
     \<and> c \<noteq> CHR '':'' \<and> c \<noteq> CHR ''|''"
  by (auto simp: is_space_def is_word_def ascii_lowercase_def ascii_uppercase_def)

lemma takeWhile_word_spaces:
  "list_all is_space ws \<Longrightarrow> takeWhile is_word (cs @ ws) = takeWhile is_word cs"
proof (induction cs)
  case Nil
  then show ?case by (cases ws) (auto simp: space_not_special)
next
  case (Cons c cs)
  then show ?case by simp
qed

lemma dropWhile_word_spaces:
  "list_all is_space ws \<Longrightarrow> dropWhile is_word (cs @ ws) = dropWhile is_word cs @ ws"
proof (induction cs)
  case Nil
  then show ?case by (cases ws) (auto simp: space_not_special)
next
  case (Cons c cs)
  then show ?case by simp
qed

lemma alt_types_spaces:
  "list_all is_space ws \<Longrightarrow> alt_types (s @ ws) = map_option (\<lambda>r. r @ ws) (alt_types s)"
proof (induction s rule: alt_types.induct)
  case 1
  then show ?case by (cases ws) (auto simp: space_not_special)
next
  case (2 c cs)
  then show ?case
    by (simp add: takeWhile_word_spaces dropWhile_word_spaces)
qed

lemma match_node_spaces:
  assumes sp: "list_all is_space ws" and "s \<noteq> []"
  shows "match_node (s @ ws) = map_option (\<lambda>(g, r). (g, r @ ws)) (match_node s)"
proof -
  obtain c cs where s: "s = c # cs" using assms(2) by (cases s) auto
  define T where "T = takeWhile is_word cs"
  define D where "D = dropWhile is_word cs"
  have tw: "takeWhile is_word (cs @ ws) = T" and dw: "dropWhile is_word (cs @ ws) = D @ ws"
    by (simp_all only: T_def D_def takeWhile_word_spaces [OF sp] dropWhile_word_spaces [OF sp])
  have L: "match_node (s @ ws) =
      (if c \<noteq> CHR ''('' \<or> T = [] then None
       else (case D @ ws of [] \<Rightarrow> None
             | d # ds \<Rightarrow>
                 if d = CHR '')'' then Some (T, ds)
                 else if d = CHR '':'' \<and> takeWhile is_word ds \<noteq> []
                 then map_option (Pair T) (alt_types (dropWhile is_word ds))
                 else None))"
    unfolding s match_node_def by (simp only: append_Cons list.case tw dw)
  have R: "match_node s =
      (if c \<noteq> CHR ''('' \<or> T = [] then None
       else (case D of [] \<Rightarrow> None
             | d # ds \<Rightarrow>
                 if d = CHR '')'' then Some (T, ds)
                 else if d = CHR '':'' \<and> takeWhile is_word ds \<noteq> []
                 then map_option (Pair T) (alt_types (dropWhile is_word ds))
                 else None))"
    unfolding s match_node_def by (simp only: list.case T_def D_def)
  show ?thesis
  proof (cases D)
    case Nil
    then show ?thesis
      unfolding L R using sp by (cases ws) (auto simp: space_not_special)
  next
    case (Cons d ds)
    then show ?thesis
      unfolding L R
      by (simp add: takeWhile_word_spaces [OF sp] dropWhile_word_spaces [OF sp]
            alt_types_spaces [OF sp] option.map_comp comp_def)
  qed
qed

lemma match_rel_spaces:
  assumes sp: "list_all is_space ws" and "s \<noteq> []"
  shows "match_rel (s @ ws) = map_option (\<lambda>(g, r). (g, r @ ws)) (match_rel s)"
proof -
  obtain c cs where s: "s = c # cs" using assms(2) by (cases s) auto
  define T where "T = takeWhile is_word cs"
  define D where "D = dropWhile is_word cs"
  have tw: "takeWhile is_word (cs @ ws) = T" and dw: "dropWhile is_word (cs @ ws) = D @ ws"
    by (simp_all only: T_def D_def takeWhile_word_spaces [OF sp] dropWhile_word_spaces [OF sp])
  have L: "match_rel (s @ ws) =
      (if c \<noteq> CHR ''['' \<or> T = [] then None
       else (case D @ ws of [] \<Rightarrow> None
             | d # ds \<Rightarrow>
                 if d = CHR '']'' then Some (T, ds)
                 else if d = CHR '':'' \<and> takeWhile is_word ds \<noteq> []
                 then (case dropWhile is_word ds of [] \<Rightarrow> None
                       | e # es \<Rightarrow> if e = CHR '']'' then Some (T, es) else None)
                 else None))"
    unfolding s match_rel_def by (simp only: append_Cons list.case tw dw)
  have R: "match_rel s =
      (if c \<noteq> CHR ''['' \<or> T = [] then None
       else (case D of [] \<Rightarrow> None
             | d # ds \<Rightarrow>
                 if d = CHR '']'' then Some (T, ds)
                 else if d = CHR '':'' \<and> takeWhile is_word ds \<noteq> []
                 then (case dropWhile is_word ds of [] \<Rightarrow> None
                       | e # es \<Rightarrow> if e = CHR '']'' then Some (T, es) else None)
                 else None))"
    unfolding s match_rel_def by (simp only: list.case T_def D_def)
  show ?thesis
  proof (cases D)
    case Nil
    then show ?thesis
      unfolding L R using sp by (cases ws) (auto simp: space_not_special)
  next
    case (Cons d ds)
    define E where "E = dropWhile is_word ds"
    have dw2: "dropWhile is_word (ds @ ws) = E @ ws"
      by (simp only: E_def dropWhile_word_spaces [OF sp])
    have tw2: "takeWhile is_word (ds @ ws) = takeWhile is_word ds"
      by (simp only: takeWhile_word_spaces [OF sp])
    show ?thesis
    proof (cases E)
      case Nil
      then show ?thesis
        unfolding L R Cons append_Cons list.case tw2 dw2 E_def [symmetric]
        using sp by (cases ws) (auto simp: space_not_special)
    next
      case (Cons e es)
      then show ?thesis
        unfolding L R \<open>D = d # ds\<close> append_Cons list.case tw2 dw2 E_def [symmetric]
        by simp
    qed
  qed
qed

lemma findall_spaces_only:
  assumes "\<And>c cs. is_space c \<Longrightarrow> m (c # cs) = None"
  shows "list_all is_space ws \<Longrightarrow> findall m ws = []"
  by (induction ws) (auto simp: assms)

lemma findall_trailing_spaces:
  assumes "list_all is_space ws"
    and "\<And>s. s \<noteq> [] \<Longrightarrow> m (s @ ws) = map_option (\<lambda>(g, r). (g, r @ ws)) (m s)"
    and "\<And>c cs. is_space c \<Longrightarrow> m (c # cs) = None"
  shows "findall m (s @ ws) = findall m s"
  using assms
proof (induction m s rule: findall.induct)
  case (1 m)
  then show ?case by (simp add: findall_spaces_only)
next
  case (2 m c cs)
  have app: "m (c # cs @ ws) = map_option (\<lambda>(g, r). (g, r @ ws)) (m (c # cs))"
    using "2.prems"(2) [of "c # cs"] by simp
  show ?case
  proof (cases "m (c # cs)")
    case None
    have "findall m (cs @ ws) = findall m cs"
      using "2.IH"(1) [OF None "2.prems"] .
    then show ?thesis using None app by simp
  next
    case (Some p)
    obtain g rest where p: "p = (g, rest)" by (cases p)
    have "findall m ((if length rest \<le> length cs then rest else cs) @ ws)
            = findall m (if length rest \<le> length cs then rest else cs)"
      using "2.IH"(2) [OF Some p [symmetric] "2.prems"] .
    then show ?thesis using Some p app by (auto split: if_splits)
  qed
qed

lemma findall_leading_spaces:
  assumes "\<And>c cs. is_space c \<Longrightarrow> m (c # cs) = None"
  shows "findall m (dropWhile is_space s) = findall m s"
  by (induction s) (simp_all add: assms)

lemma match_node_space: "is_space c \<Longrightarrow> match_node (c # cs) = None"
  by (simp add: match_node_def space_not_special)

lemma match_rel_space: "is_space c \<Longrightarrow> match_rel (c # cs) = None"
  by (simp add: match_rel_def space_not_special)

lemma strip_decompose:
  "\<exists>ws. list_all is_space ws \<and> dropWhile is_space s = strip s @ ws"
proof -
  let ?t = "dropWhile is_space s"
  have "rev (rev ?t) = rev (takeWhile is_space (rev ?t) @ dropWhile is_space (rev ?t))"
    by (simp only: takeWhile_dropWhile_id)
  then have "?t = strip s @ rev (takeWhile is_space (rev ?t))"
    by (simp only: rev_rev_ident rev_append strip_def)
  moreover have "list_all is_space (rev (takeWhile is_space (rev ?t)))"
    by (auto simp: list_all_iff dest: set_takeWhileD)
  ultimately show ?thesis by blast
qed

lemma findall_node_strip: "findall match_node (strip s) = findall match_node s"
proof -
  obtain ws where ws: "list_all is_space ws" "dropWhile is_space s = strip s @ ws"
    using strip_decompose by blast
  have "findall match_node s = findall match_node (strip s @ ws)"
    using findall_leading_spaces [of match_node s] ws(2) by (simp add: match_node_space)
  also have "\<dots> = findall match_node (strip s)"
    by (rule findall_trailing_spaces [OF ws(1)]) (simp_all add: match_node_spaces ws(1) match_node_space)
  finally show ?thesis by simp
qed

lemma findall_rel_strip: "findall match_rel (strip s) = findall match_rel s"
proof -
  obtain ws where ws: "list_all is_space ws" "dropWhile is_space s = strip s @ ws"
    using strip_decompose by blast
  have "findall match_rel s = findall match_rel (strip s @ ws)"
    using findall_leading_spaces [of match_rel s] ws(2) by (simp add: match_rel_space)
  also have "\<dots> = findall match_rel (strip s)"
    by (rule findall_trailing_spaces [OF ws(1)]) (simp_all add: match_rel_spaces ws(1) match_rel_space)
  finally show ?thesis by simp
qed

lemma fromkeys_aux:
  "set (foldl (\<lambda>d k. if k \<in> set d then d else d @ [k]) acc xs) = set acc \<union> set xs
   \<and> (distinct acc \<longrightarrow> distinct (foldl (\<lambda>d k. if k \<in> set d then d else d @ [k]) acc xs))"
  by (induction xs arbitrary: acc) auto

lemma set_fromkeys: "set (fromkeys xs) = set xs"
  by (simp add: fromkeys_def fromkeys_aux)

lemma distinct_fromkeys: "distinct (fromkeys xs)"
  by (simp add: fromkeys_def fromkeys_aux)

lemma extract_variables_eq_names:
  "extract_variables_from_pattern q = (set (node_names q), set (rel_names q))"
  by (simp add: extract_variables_from_pattern_def node_names_def rel_names_def match_clause_def
        set_fromkeys findall_node_strip findall_rel_strip Let_def split: option.splits)



section \<open>Properties of the rewriter and the extractor\<close>

lemma match_found:
  assumes "sublist ''MATCH'' (upper q)"
  obtains i where "str_find (upper q) ''MATCH'' 0 = Some i"
  using assms str_find_None_iff [of "upper q" "''MATCH''"]
  by (cases "str_find (upper q) ''MATCH'' 0") auto

text \<open>
  Claim C9. A query whose upper-cased text has no occurrence of \<^verbatim>\<open>MATCH\<close> gives two
  empty sets in the pattern extractor and comes back unchanged from the rewriter.
\<close>

theorem no_match_clause:
  assumes "\<not> sublist ''MATCH'' (upper q)"
  shows "extract_variables_from_pattern q = ({}, {}) \<and> create_graph_query q = q"
proof -
  have "str_find (upper q) ''MATCH'' 0 = None"
    using assms by (simp add: str_find_None_iff)
  then show ?thesis
    by (simp add: extract_variables_from_pattern_def create_graph_query_def)
qed

theorem no_match_clause_witness:
  "\<not> sublist ''MATCH'' (upper query_no_match)
   \<and> (extract_variables_from_pattern query_no_match = ({}, {})
      \<and> create_graph_query query_no_match = query_no_match)"
proof -
  have h: "\<not> sublist ''MATCH'' (upper query_no_match)"
    unfolding query_no_match_def by code_simp
  show ?thesis
    by (rule conjI [OF h no_match_clause [OF h]])
qed

text \<open>
  Claim C1, as amended. For the query
  \<^verbatim>\<open>MATCH (p:Person)-[r:ACTED_IN]->(m:Movie) RETURN p.name\<close> the rewriter gives the match
  clause followed by
  \<^verbatim>\<open>RETURN p, labels(p) as p_labels, m, labels(m) as m_labels, r LIMIT 50\<close>. For every query
  with a match clause and at least one extracted variable, in which no relationship
  variable has the name of a node variable, the rewritten query is the match clause, the
  where clause when there is one, \<^verbatim>\<open>RETURN\<close> with every node variable followed by its
  labels column and every relationship variable alone, and \<^verbatim>\<open>LIMIT 50\<close>.
\<close>

theorem create_graph_query_shape:
  "create_graph_query query_acted_in =
     ''MATCH (p:Person)-[r:ACTED_IN]->(m:Movie) RETURN p, labels(p) as p_labels, m, labels(m) as m_labels, r LIMIT 50''
   \<and> (sublist ''MATCH'' (upper q) \<longrightarrow> node_names q @ rel_names q \<noteq> [] \<longrightarrow>
        set (rel_names q) \<inter> set (node_names q) = {} \<longrightarrow>
        create_graph_query q =
          match_clause q @ where_clause q @ '' RETURN '' @
          join '', '' (spec_return_items (node_names q) (rel_names q)) @ '' LIMIT 50'')"
proof (intro conjI impI)
  show "create_graph_query query_acted_in =
     ''MATCH (p:Person)-[r:ACTED_IN]->(m:Movie) RETURN p, labels(p) as p_labels, m, labels(m) as m_labels, r LIMIT 50''"
    unfolding query_acted_in_def by code_simp
next
  assume m: "sublist ''MATCH'' (upper q)" and v: "node_names q @ rel_names q \<noteq> []"
    and d: "set (rel_names q) \<inter> set (node_names q) = {}"
  obtain i where i: "str_find (upper q) ''MATCH'' 0 = Some i"
    using m by (rule match_found)
  have "return_parts (node_names q) (node_names q @ rel_names q)
          = spec_return_items (node_names q) (rel_names q)"
    using d
    by (simp add: return_parts_append return_parts_of_nodes return_parts_of_rels spec_return_items_def)
  then show "create_graph_query q =
          match_clause q @ where_clause q @ '' RETURN '' @
          join '', '' (spec_return_items (node_names q) (rel_names q)) @ '' LIMIT 50''"
    using create_graph_query_unfold [OF i] v by simp
qed

theorem create_graph_query_shape_witness:
  "sublist ''MATCH'' (upper query_released)
   \<and> node_names query_released = [''p'', ''m'']
   \<and> rel_names query_released = [''r'']
   \<and> create_graph_query query_released =
       ''MATCH (p:Person)-[r:ACTED_IN]->(m:Movie) WHERE m.released > 1995 RETURN p, labels(p) as p_labels, m, labels(m) as m_labels, r LIMIT 50''"
proof -
  have h: "sublist ''MATCH'' (upper query_released)"
    unfolding query_released_def by code_simp
  have n: "node_names query_released = [''p'', ''m'']"
    unfolding query_released_def by code_simp
  have r: "rel_names query_released = [''r'']"
    unfolding query_released_def by code_simp
  have mc: "match_clause query_released = ''MATCH (p:Person)-[r:ACTED_IN]->(m:Movie)''"
    unfolding query_released_def by code_simp
  have wc: "where_clause query_released = '' WHERE m.released > 1995''"
    unfolding query_released_def by code_simp
  have "create_graph_query query_released =
          match_clause query_released @ where_clause query_released @ '' RETURN '' @
          join '', '' (spec_return_items (node_names query_released) (rel_names query_released)) @ '' LIMIT 50''"
    using create_graph_query_shape [of query_released] h by (simp add: n r)
  then have "create_graph_query query_released =
       ''MATCH (p:Person)-[r:ACTED_IN]->(m:Movie) WHERE m.released > 1995 RETURN p, labels(p) as p_labels, m, labels(m) as m_labels, r LIMIT 50''"
    by (simp add: n r mc wc spec_return_items_def labels_column_def)
  with h n r show ?thesis by (intro conjI)
qed

text \<open>
  The claim as first stated fails where a relationship variable has the name of a node
  variable: in \<^verbatim>\<open>MATCH (a)-[a]->(b) RETURN a\<close> the relationship variable \<open>a\<close> is followed
  by a labels column as well.
\<close>

theorem create_graph_query_same_name_counterexample:
  "node_names query_same_name = [''a'', ''b'']
   \<and> rel_names query_same_name = [''a'']
   \<and> create_graph_query query_same_name =
       ''MATCH (a)-[a]->(b) RETURN a, labels(a) as a_labels, b, labels(b) as b_labels, a, labels(a) as a_labels LIMIT 50''
   \<and> create_graph_query query_same_name \<noteq>
       match_clause query_same_name @ where_clause query_same_name @ '' RETURN '' @
       join '', '' (spec_return_items (node_names query_same_name) (rel_names query_same_name)) @ '' LIMIT 50''"
  unfolding query_same_name_def by code_simp

text \<open>
  Claim C5, as amended. The pattern extractor returns two sets without order: the set of
  the node variable names and the set of the relationship variable names of the match
  clause, which are the names the rewriter lists in first-seen order. For the query
  \<^verbatim>\<open>MATCH (p:Person)-[r:ACTED_IN]->(m:Movie) RETURN p.name\<close> the sets are \<open>{p, m}\<close> and
  \<open>{r}\<close>, and the rewriter's lists are \<open>[p, m]\<close> and \<open>[r]\<close>.
\<close>

theorem extract_variables_sets:
  "extract_variables_from_pattern q = (set (node_names q), set (rel_names q))
   \<and> distinct (node_names q) \<and> distinct (rel_names q)
   \<and> extract_variables_from_pattern query_acted_in = ({''p'', ''m''}, {''r''})
   \<and> node_names query_acted_in = [''p'', ''m'']
   \<and> rel_names query_acted_in = [''r'']"
proof -
  have n: "node_names query_acted_in = [''p'', ''m'']"
    unfolding query_acted_in_def by code_simp
  have r: "rel_names query_acted_in = [''r'']"
    unfolding query_acted_in_def by code_simp
  have e: "extract_variables_from_pattern query_acted_in = ({''p'', ''m''}, {''r''})"
    by (simp add: extract_variables_eq_names n r)
  have d: "distinct (node_names q)" "distinct (rel_names q)"
    by (simp_all add: node_names_def rel_names_def distinct_fromkeys)
  show ?thesis
    using extract_variables_eq_names [of q] d e n r by (intro conjI)
qed

text \<open>
  The claim as first stated fails: the result keeps no order. The query with the pattern
  written from the movie's side has the first-seen order \<open>m\<close>, \<open>p\<close>, and the extractor
  returns the same pair of sets for it.
\<close>

theorem extract_variables_order_counterexample:
  "extract_variables_from_pattern query_acted_in = extract_variables_from_pattern query_acted_in_reversed
   \<and> node_names query_acted_in = [''p'', ''m'']
   \<and> node_names query_acted_in_reversed = [''m'', ''p'']"
proof -
  have n: "node_names query_acted_in = [''p'', ''m'']"
    unfolding query_acted_in_def by code_simp
  have n': "node_names query_acted_in_reversed = [''m'', ''p'']"
    unfolding query_acted_in_reversed_def by code_simp
  have r: "rel_names query_acted_in = [''r'']"
    unfolding query_acted_in_def by code_simp
  have r': "rel_names query_acted_in_reversed = [''r'']"
    unfolding query_acted_in_reversed_def by code_simp
  have "extract_variables_from_pattern query_acted_in = extract_variables_from_pattern query_acted_in_reversed"
    by (auto simp: extract_variables_eq_names n n' r r')
  then show ?thesis using n n' by simp
qed


section \<open>Properties of the reconstructor\<close>


lemma add_node_relationships: "relationships (add_node b lm acc key d) = relationships acc"
  by (simp add: add_node_def Let_def split: option.splits)

lemma add_relationship_nodes: "nodes (add_relationship b acc d) = nodes acc"
  by (simp add: add_relationship_def Let_def)

lemma process_value_not_binding:
  "\<not> is_binding nv rv kv \<Longrightarrow> process_value b nv rv lm acc kv = acc"
  by (cases kv) (auto simp: process_value_def is_binding_def Let_def split: pyval.splits)

lemma process_value_relationships:
  "relationships (process_value b nv rv lm acc kv) =
     (if appends_relationship nv rv kv
      then relationships acc @
           [\<lparr>r_type = dict_get_default (case snd kv of PDict d \<Rightarrow> d | _ \<Rightarrow> []) ''type'' (PStr ''RELATED_TO''),
             r_startNode = py_str b (dict_get (case snd kv of PDict d \<Rightarrow> d | _ \<Rightarrow> []) ''start''),
             r_endNode = py_str b (dict_get (case snd kv of PDict d \<Rightarrow> d | _ \<Rightarrow> []) ''end''),
             r_properties = serialize_items b
               (filter (\<lambda>(k, v). k \<notin> set [''type'', ''start'', ''end''])
                  (case snd kv of PDict d \<Rightarrow> d | _ \<Rightarrow> []))\<rparr>]
      else relationships acc)"
  by (cases kv)
     (auto simp: process_value_def appends_relationship_def add_node_relationships
        add_relationship_def Let_def split: pyval.splits)

lemma process_value_length_relationships:
  "length (relationships (process_value b nv rv lm acc kv)) =
     length (relationships acc) + (if appends_relationship nv rv kv then 1 else 0)"
  by (simp add: process_value_relationships)

lemma foldl_process_value_length:
  "length (relationships (foldl (process_value b nv rv lm) acc row)) =
     length (relationships acc) + length (filter (appends_relationship nv rv) row)"
  by (induction row arbitrary: acc) (simp_all add: process_value_length_relationships)

lemma process_rows_length_relationships:
  "length (relationships (process_rows b nv rv acc rows)) =
     length (relationships acc) + sum_list (map (\<lambda>row. length (filter (appends_relationship nv rv) row)) rows)"
  unfolding process_rows_def
  by (induction rows arbitrary: acc) (simp_all add: process_record_def foldl_process_value_length)

lemma foldl_process_value_no_binding:
  "list_all (\<lambda>kv. \<not> is_binding nv rv kv) row \<Longrightarrow> foldl (process_value b nv rv lm) acc row = acc"
  by (induction row arbitrary: acc) (simp_all add: process_value_not_binding)

lemma process_rows_no_binding:
  "list_all (\<lambda>row. list_all (\<lambda>kv. \<not> is_binding nv rv kv) row) rows \<Longrightarrow>
     process_rows b nv rv acc rows = acc"
  unfolding process_rows_def
  by (induction rows arbitrary: acc) (simp_all add: process_record_def foldl_process_value_no_binding)

lemma process_value_rel_vars_minus:
  "process_value b nv rv lm acc kv = process_value b nv (rv - nv) lm acc kv"
  by (cases kv) (auto simp: process_value_def Let_def split: pyval.splits)

lemma process_rows_rel_vars_minus:
  "process_rows b nv rv acc rows = process_rows b nv (rv - nv) acc rows"
proof -
  have v: "process_value b nv rv = process_value b nv (rv - nv)"
    by (intro ext) (rule process_value_rel_vars_minus)
  have "process_record b nv rv = process_record b nv (rv - nv)"
    by (intro ext) (simp add: process_record_def v)
  then show ?thesis by (simp add: process_rows_def)
qed

lemma reconstruct_Nil: "reconstruct b nv rv [] = None"
  by (simp add: reconstruct_def process_rows_def empty_acc_def)

text \<open>
  Claim C6. Zero rows, or rows in which no column is a binding (a property bag under the
  name of a node or relationship variable), give \<^verbatim>\<open>None\<close>; a payload is returned if
  and only if the number of accumulated nodes plus relationships is not zero, and then it
  holds exactly the accumulated nodes and relationships, not both empty. With an executor
  that returns no rows, \<^verbatim>\<open>_extract_graph_data\<close> returns \<^verbatim>\<open>None\<close>.
\<close>

theorem reconstruct_absent_iff_empty:
  "reconstruct b nv rv [] = None
   \<and> (list_all (\<lambda>row. list_all (\<lambda>kv. \<not> is_binding nv rv kv) row) rows \<longrightarrow>
        reconstruct b nv rv rows = None)
   \<and> (reconstruct b nv rv rows \<noteq> None \<longleftrightarrow>
        length (nodes (process_rows b nv rv empty_acc rows))
          + length (relationships (process_rows b nv rv empty_acc rows)) \<noteq> 0)
   \<and> (reconstruct b nv rv rows = Some p \<longrightarrow>
        p_nodes p = map snd (nodes (process_rows b nv rv empty_acc rows))
        \<and> p_relationships p = relationships (process_rows b nv rv empty_acc rows)
        \<and> (p_nodes p \<noteq> [] \<or> p_relationships p \<noteq> []))
   \<and> (contains ''MATCH'' (upper q) \<longrightarrow> graph_query (create_graph_query q) = Inr [] \<longrightarrow>
        extract_graph_data b graph_query q = Inr None)"
proof (intro conjI impI)
  show "reconstruct b nv rv [] = None"
    by (rule reconstruct_Nil)
  show "reconstruct b nv rv rows = None"
    if "list_all (\<lambda>row. list_all (\<lambda>kv. \<not> is_binding nv rv kv) row) rows"
    using process_rows_no_binding [OF that, of b empty_acc]
    by (simp add: reconstruct_def empty_acc_def)
  show "reconstruct b nv rv rows \<noteq> None \<longleftrightarrow>
        length (nodes (process_rows b nv rv empty_acc rows))
          + length (relationships (process_rows b nv rv empty_acc rows)) \<noteq> 0"
    by (simp add: reconstruct_def Let_def)
  show "p_nodes p = map snd (nodes (process_rows b nv rv empty_acc rows))"
    "p_relationships p = relationships (process_rows b nv rv empty_acc rows)"
    "p_nodes p \<noteq> [] \<or> p_relationships p \<noteq> []"
    if "reconstruct b nv rv rows = Some p"
    using that by (auto simp: reconstruct_def Let_def split: if_splits)
  show "extract_graph_data b graph_query q = Inr None"
    if "contains ''MATCH'' (upper q)" "graph_query (create_graph_query q) = Inr []"
    using that by (simp add: extract_graph_data_def reconstruct_Nil split: prod.splits)
qed


lemma reconstruct_tom_hanks:
  "reconstruct sample_builtins {''p'', ''m''} {''r''} [row_tom_hanks] = Some payload_tom_hanks"
  unfolding row_tom_hanks_def payload_tom_hanks_def sample_builtins_def by code_simp

theorem reconstruct_absent_iff_empty_witness:
  "list_all (\<lambda>row. list_all (\<lambda>kv. \<not> is_binding {''p'', ''m''} {''r''} kv) row) [row_count]
   \<and> reconstruct sample_builtins {''p'', ''m''} {''r''} [row_count] = None
   \<and> reconstruct sample_builtins {''p'', ''m''} {''r''} [row_tom_hanks] = Some payload_tom_hanks
   \<and> p_nodes payload_tom_hanks \<noteq> []
   \<and> contains ''MATCH'' (upper query_acted_in)
   \<and> extract_graph_data sample_builtins (\<lambda>text. Inr []) query_acted_in = Inr None"
proof -
  have h1: "list_all (\<lambda>row. list_all (\<lambda>kv. \<not> is_binding {''p'', ''m''} {''r''} kv) row) [row_count]"
    by (simp add: row_count_def is_binding_def)
  have c1: "reconstruct sample_builtins {''p'', ''m''} {''r''} [row_count] = None"
    using reconstruct_absent_iff_empty [of sample_builtins "{''p'', ''m''}" "{''r''}" "[row_count]"] h1
    by blast
  have h2: "reconstruct sample_builtins {''p'', ''m''} {''r''} [row_tom_hanks] = Some payload_tom_hanks"
    by (rule reconstruct_tom_hanks)
  have c2: "p_nodes payload_tom_hanks \<noteq> [] \<or> p_relationships payload_tom_hanks \<noteq> []"
    using reconstruct_absent_iff_empty
      [of sample_builtins "{''p'', ''m''}" "{''r''}" "[row_tom_hanks]" payload_tom_hanks] h2
    by blast
  then have c2': "p_nodes payload_tom_hanks \<noteq> []"
    by (simp add: payload_tom_hanks_def)
  have h3: "contains ''MATCH'' (upper query_acted_in)"
    unfolding query_acted_in_def by code_simp
  have c3: "extract_graph_data sample_builtins (\<lambda>text. Inr []) query_acted_in = Inr None"
    using reconstruct_absent_iff_empty
      [where b = sample_builtins and q = query_acted_in and graph_query = "\<lambda>text. Inr []"] h3
    by blast
  show ?thesis
    using h1 c1 h2 c2' h3 c3 by (intro conjI)
qed


text \<open>
  Claim C4, as amended. A column appends a relationship when its name is a relationship
  variable, is not a node variable and does not end in \<^verbatim>\<open>_labels\<close>, and its value is a
  property bag whose \<^verbatim>\<open>start\<close> and \<^verbatim>\<open>end\<close> are true in Python's sense. For such a column
  one relationship is appended: its type is the \<^verbatim>\<open>type\<close> field as it is
  (\<^verbatim>\<open>RELATED_TO\<close> when the bag has none), its endpoints are the texts of \<^verbatim>\<open>start\<close> and
  \<^verbatim>\<open>end\<close> (the fields themselves when they are strings), its properties the other
  entries, serialized. No other column changes the list, and nothing is deduplicated: the
  list grows by the number of such columns in the rows.
\<close>

theorem relationship_appended:
  "(appends_relationship nv rv (key, PDict d) \<longrightarrow>
      process_value b nv rv lm acc (key, PDict d) =
        acc\<lparr>relationships := relationships acc @
          [\<lparr>r_type = dict_get_default d ''type'' (PStr ''RELATED_TO''),
            r_startNode = py_str b (dict_get d ''start''),
            r_endNode = py_str b (dict_get d ''end''),
            r_properties = serialize_items b (filter (\<lambda>(k, v). k \<notin> set [''type'', ''start'', ''end'']) d)\<rparr>]\<rparr>)
   \<and> (appends_relationship nv rv (key, PDict d) \<longrightarrow> map_of d ''type'' = Some t \<longrightarrow>
        map_of d ''start'' = Some (PStr s) \<longrightarrow> map_of d ''end'' = Some (PStr e) \<longrightarrow>
        relationships (process_value b nv rv lm acc (key, PDict d)) =
          relationships acc @
          [\<lparr>r_type = t, r_startNode = s, r_endNode = e,
            r_properties = serialize_items b (filter (\<lambda>(k, v). k \<notin> set [''type'', ''start'', ''end'']) d)\<rparr>])
   \<and> (\<not> appends_relationship nv rv kv \<longrightarrow>
        relationships (process_value b nv rv lm acc kv) = relationships acc)
   \<and> length (relationships (process_rows b nv rv acc rows)) =
       length (relationships acc)
       + sum_list (map (\<lambda>row. length (filter (appends_relationship nv rv) row)) rows)"
proof (intro conjI impI)
  assume a: "appends_relationship nv rv (key, PDict d)"
  then show "process_value b nv rv lm acc (key, PDict d) =
        acc\<lparr>relationships := relationships acc @
          [\<lparr>r_type = dict_get_default d ''type'' (PStr ''RELATED_TO''),
            r_startNode = py_str b (dict_get d ''start''),
            r_endNode = py_str b (dict_get d ''end''),
            r_properties = serialize_items b (filter (\<lambda>(k, v). k \<notin> set [''type'', ''start'', ''end'']) d)\<rparr>]\<rparr>"
    by (auto simp: appends_relationship_def process_value_def add_relationship_def Let_def dict_get_def
          dict_get_default_def)
next
  assume a: "appends_relationship nv rv (key, PDict d)"
    and t: "map_of d ''type'' = Some t" and s: "map_of d ''start'' = Some (PStr s)"
    and e: "map_of d ''end'' = Some (PStr e)"
  show "relationships (process_value b nv rv lm acc (key, PDict d)) =
          relationships acc @
          [\<lparr>r_type = t, r_startNode = s, r_endNode = e,
            r_properties = serialize_items b (filter (\<lambda>(k, v). k \<notin> set [''type'', ''start'', ''end'']) d)\<rparr>]"
    using a by (simp add: process_value_relationships dict_get_def dict_get_default_def t s e py_str_def)
next
  assume "\<not> appends_relationship nv rv kv"
  then show "relationships (process_value b nv rv lm acc kv) = relationships acc"
    by (simp add: process_value_relationships)
next
  show "length (relationships (process_rows b nv rv acc rows)) =
       length (relationships acc)
       + sum_list (map (\<lambda>row. length (filter (appends_relationship nv rv) row)) rows)"
    by (rule process_rows_length_relationships)
qed

theorem relationship_appended_witness:
  "appends_relationship {''p'', ''m''} {''r''} (''r'', PDict bag_acted_in)
   \<and> process_value sample_builtins {''p'', ''m''} {''r''} Map.empty empty_acc (''r'', PDict bag_acted_in)
       = \<lparr>nodes = [], relationships = [relationship_acted_in]\<rparr>
   \<and> relationships (process_value sample_builtins {''p'', ''m''} {''r''} Map.empty
         \<lparr>nodes = [], relationships = [relationship_acted_in]\<rparr> (''r'', PDict bag_acted_in))
       = [relationship_acted_in, relationship_acted_in]
   \<and> \<not> appends_relationship {''p'', ''m''} {''r''} (''p'', PDict bag_acted_in)
   \<and> relationships (process_value sample_builtins {''p'', ''m''} {''r''} Map.empty empty_acc
         (''p'', PDict bag_acted_in)) = []"
proof -
  let ?nv = "{''p'', ''m''}" and ?rv = "{''r''}"
  let ?acc1 = "\<lparr>nodes = [], relationships = [relationship_acted_in]\<rparr>"
  have h: "appends_relationship ?nv ?rv (''r'', PDict bag_acted_in)"
    by (simp add: appends_relationship_def bag_acted_in_def dict_get_def dict_get_default_def suffix_def)
  have m: "map_of bag_acted_in ''type'' = Some (PStr ''ACTED_IN'')"
    "map_of bag_acted_in ''start'' = Some (PStr ''4:a:1'')"
    "map_of bag_acted_in ''end'' = Some (PStr ''4:a:2'')"
    by (simp_all add: bag_acted_in_def)
  have vals: "dict_get_default bag_acted_in ''type'' (PStr ''RELATED_TO'') = PStr ''ACTED_IN''"
    "py_str sample_builtins (dict_get bag_acted_in ''start'') = ''4:a:1''"
    "py_str sample_builtins (dict_get bag_acted_in ''end'') = ''4:a:2''"
    by (simp_all add: dict_get_def dict_get_default_def m py_str_def)
  have props: "serialize_items sample_builtins
      (filter (\<lambda>(k, v). k \<notin> set [''type'', ''start'', ''end'']) bag_acted_in) = [(''roles'', PList [PStr ''Josh''])]"
    by (simp add: serialize_items_def bag_acted_in_def)
  have c1: "process_value sample_builtins ?nv ?rv Map.empty empty_acc (''r'', PDict bag_acted_in) = ?acc1"
    unfolding relationship_appended [THEN conjunct1, THEN mp, OF h] vals props
    by (simp add: empty_acc_def relationship_acted_in_def)
  have c2: "relationships (process_value sample_builtins ?nv ?rv Map.empty ?acc1 (''r'', PDict bag_acted_in))
       = [relationship_acted_in, relationship_acted_in]"
    unfolding relationship_appended [THEN conjunct2, THEN conjunct1, THEN mp, THEN mp, THEN mp, THEN mp,
        OF h m] props
    by (simp add: relationship_acted_in_def)
  have h3: "\<not> appends_relationship ?nv ?rv (''p'', PDict bag_acted_in)"
    by (simp add: appends_relationship_def)
  have c3: "relationships (process_value sample_builtins ?nv ?rv Map.empty empty_acc
         (''p'', PDict bag_acted_in)) = []"
    unfolding relationship_appended [THEN conjunct2, THEN conjunct2, THEN conjunct1, THEN mp, OF h3]
    by (simp add: empty_acc_def)
  show ?thesis
    using h c1 c2 h3 c3 by (intro conjI)
qed

text \<open>
  The claim as first stated fails for a bag that has the three fields with a false
  endpoint: the identifier \<open>0\<close> is skipped by the test \<^verbatim>\<open>if start_id and end_id\<close>.
\<close>

theorem relationship_falsy_endpoint_counterexample:
  "map_of bag_start_zero ''type'' = Some (PStr ''ACTED_IN'')
   \<and> map_of bag_start_zero ''start'' = Some (PInt 0)
   \<and> map_of bag_start_zero ''end'' = Some (PInt 5)
   \<and> process_value sample_builtins {} {''r''} Map.empty empty_acc (''r'', PDict bag_start_zero) = empty_acc
   \<and> reconstruct sample_builtins {} {''r''} [[(''r'', PDict bag_start_zero)]] = None"
  by (simp add: bag_start_zero_def process_value_def add_relationship_def dict_get_def
        dict_get_default_def reconstruct_def process_rows_def process_record_def collect_labels_def
        empty_acc_def Let_def suffix_def)


lemma add_node_keys:
  "fst ` set (nodes (add_node b lm acc key d)) =
     fst ` set (nodes acc) \<union> set_option (map_option (\<lambda>p. key @ ''_'' @ py_str b p) (node_id_prop b d))"
  by (auto simp: add_node_def Let_def split: option.splits)

lemma add_node_seen:
  "set_option (map_option (\<lambda>p. key @ ''_'' @ py_str b p) (node_id_prop b d)) \<subseteq> fst ` set (nodes acc)
     \<Longrightarrow> add_node b lm acc key d = acc"
  by (auto simp: add_node_def Let_def split: option.splits)

lemma add_node_wf: "wf_nodes (nodes acc) \<Longrightarrow> wf_nodes (nodes (add_node b lm acc key d))"
  by (auto simp: add_node_def wf_nodes_def Let_def split: option.splits)

lemma process_value_keys:
  "fst ` set (nodes (process_value b nv rv lm acc kv)) =
     fst ` set (nodes acc) \<union> set_option (value_node_id b nv kv)"
  by (cases kv)
     (auto simp: process_value_def value_node_id_def add_node_keys add_relationship_nodes Let_def
        split: pyval.splits)

lemma process_value_seen:
  "set_option (value_node_id b nv kv) \<subseteq> fst ` set (nodes acc) \<Longrightarrow>
     nodes (process_value b nv rv lm acc kv) = nodes acc"
  by (cases kv)
     (auto simp: process_value_def value_node_id_def add_node_seen add_relationship_nodes Let_def
        split: pyval.splits)

lemma process_value_wf:
  "wf_nodes (nodes acc) \<Longrightarrow> wf_nodes (nodes (process_value b nv rv lm acc kv))"
  by (cases kv)
     (auto simp: process_value_def add_node_wf add_relationship_nodes Let_def split: pyval.splits)

lemma foldl_process_value_keys:
  "fst ` set (nodes (foldl (process_value b nv rv lm) acc row)) =
     fst ` set (nodes acc) \<union> (\<Union>kv\<in>set row. set_option (value_node_id b nv kv))"
  by (induction row arbitrary: acc) (auto simp: process_value_keys)

lemma foldl_process_value_seen:
  "(\<Union>kv\<in>set row. set_option (value_node_id b nv kv)) \<subseteq> fst ` set (nodes acc) \<Longrightarrow>
     nodes (foldl (process_value b nv rv lm) acc row) = nodes acc"
proof (induction row arbitrary: acc)
  case Nil
  then show ?case by simp
next
  case (Cons kv row)
  have 1: "nodes (process_value b nv rv lm acc kv) = nodes acc"
    using Cons.prems by (intro process_value_seen) auto
  have "nodes (foldl (process_value b nv rv lm) (process_value b nv rv lm acc kv) row)
          = nodes (process_value b nv rv lm acc kv)"
    using Cons.prems by (intro Cons.IH) (auto simp: 1)
  then show ?case by (simp add: 1)
qed

lemma foldl_process_value_wf:
  "wf_nodes (nodes acc) \<Longrightarrow> wf_nodes (nodes (foldl (process_value b nv rv lm) acc row))"
  by (induction row arbitrary: acc) (simp_all add: process_value_wf)

lemma process_rows_keys:
  "fst ` set (nodes (process_rows b nv rv acc rows)) = fst ` set (nodes acc) \<union> rows_node_ids b nv rows"
  unfolding process_rows_def rows_node_ids_def
  by (induction rows arbitrary: acc) (auto simp: process_record_def foldl_process_value_keys)

lemma process_rows_seen:
  "rows_node_ids b nv rows \<subseteq> fst ` set (nodes acc) \<Longrightarrow>
     nodes (process_rows b nv rv acc rows) = nodes acc"
  unfolding process_rows_def rows_node_ids_def
proof (induction rows arbitrary: acc)
  case Nil
  then show ?case by simp
next
  case (Cons row rows)
  have 1: "nodes (process_record b nv rv acc row) = nodes acc"
    unfolding process_record_def using Cons.prems by (intro foldl_process_value_seen) auto
  have "nodes (foldl (process_record b nv rv) (process_record b nv rv acc row) rows)
          = nodes (process_record b nv rv acc row)"
    using Cons.prems by (intro Cons.IH) (auto simp: 1)
  then show ?case by (simp add: 1)
qed

lemma process_rows_wf:
  "wf_nodes (nodes acc) \<Longrightarrow> wf_nodes (nodes (process_rows b nv rv acc rows))"
  unfolding process_rows_def
  by (induction rows arbitrary: acc) (simp_all add: process_record_def foldl_process_value_wf)

lemma wf_nodes_distinct_ids:
  assumes "wf_nodes ns"
  shows "distinct (map (n_id \<circ> snd) ns)"
proof -
  from assms have a: "list_all (\<lambda>kn. n_id (snd kn) = fst kn) ns" and d: "distinct (map fst ns)"
    by (simp_all add: wf_nodes_def)
  from a have e: "map (n_id \<circ> snd) ns = map fst ns"
    by (induction ns) simp_all
  show ?thesis unfolding e by (rule d)
qed

lemma process_rows_append:
  "process_rows b nv rv acc (rows @ rows') = process_rows b nv rv (process_rows b nv rv acc rows) rows'"
  by (simp add: process_rows_def)

lemma process_rows_again:
  "nodes (process_rows b nv rv (process_rows b nv rv acc rows) rows) = nodes (process_rows b nv rv acc rows)"
  by (rule process_rows_seen) (simp add: process_rows_keys)

text \<open>
  Claim C2. The nodes of a payload have pairwise distinct ids. A column whose synthetic
  id is already a key of \<^verbatim>\<open>nodes\<close> leaves the accumulators as they are: no node is
  added, and the node already there is not modified (so its labels are never updated
  either). Running the rows a second time into the accumulators they produced changes no
  node, and the reconstruction of the rows taken twice has the same list of nodes.
\<close>

theorem nodes_deduplicated_idempotent:
  "(reconstruct b nv rv rows = Some p \<longrightarrow> distinct (map n_id (p_nodes p)))
   \<and> (key \<in> nv \<longrightarrow> node_id_prop b d = Some v \<longrightarrow>
        key @ ''_'' @ py_str b v \<in> fst ` set (nodes acc) \<longrightarrow>
        process_value b nv rv lm acc (key, PDict d) = acc)
   \<and> nodes (process_rows b nv rv (process_rows b nv rv acc rows) rows)
       = nodes (process_rows b nv rv acc rows)
   \<and> map_option p_nodes (reconstruct b nv rv (rows @ rows)) = map_option p_nodes (reconstruct b nv rv rows)"
proof (intro conjI impI)
  assume "reconstruct b nv rv rows = Some p"
  then have "p_nodes p = map snd (nodes (process_rows b nv rv empty_acc rows))"
    by (auto simp: reconstruct_def Let_def split: if_splits)
  moreover have "wf_nodes (nodes (process_rows b nv rv empty_acc rows))"
    by (rule process_rows_wf) (simp add: wf_nodes_def empty_acc_def)
  ultimately show "distinct (map n_id (p_nodes p))"
    by (simp add: wf_nodes_distinct_ids)
next
  assume "key \<in> nv" "node_id_prop b d = Some v" "key @ ''_'' @ py_str b v \<in> fst ` set (nodes acc)"
  then show "process_value b nv rv lm acc (key, PDict d) = acc"
    by (simp add: process_value_def Let_def add_node_seen)
next
  show "nodes (process_rows b nv rv (process_rows b nv rv acc rows) rows)
       = nodes (process_rows b nv rv acc rows)"
    by (rule process_rows_again)
next
  let ?a1 = "process_rows b nv rv empty_acc rows"
  let ?a2 = "process_rows b nv rv empty_acc (rows @ rows)"
  have n: "nodes ?a2 = nodes ?a1"
    by (simp add: process_rows_append process_rows_again)
  have "length (relationships ?a2) = 2 * length (relationships ?a1)"
    by (simp add: process_rows_length_relationships empty_acc_def)
  then have r: "relationships ?a2 = [] \<longleftrightarrow> relationships ?a1 = []"
    by (metis length_0_conv mult_is_0 zero_neq_numeral)
  show "map_option p_nodes (reconstruct b nv rv (rows @ rows)) = map_option p_nodes (reconstruct b nv rv rows)"
    by (simp add: reconstruct_def Let_def n r)
qed


theorem nodes_deduplicated_idempotent_witness:
  "reconstruct sample_builtins {''p'', ''m''} {''r''} [row_tom_hanks] = Some payload_tom_hanks
   \<and> distinct (map n_id (p_nodes payload_tom_hanks))
   \<and> ''p'' \<in> {''p'', ''m''}
   \<and> node_id_prop sample_builtins bag_tom_hanks_again = Some (PStr ''Tom Hanks'')
   \<and> ''p'' @ ''_'' @ py_str sample_builtins (PStr ''Tom Hanks'') \<in> fst ` set (nodes acc_tom_hanks)
   \<and> process_value sample_builtins {''p'', ''m''} {''r''} [''p'' \<mapsto> [PStr ''Actor'']] acc_tom_hanks
        (''p'', PDict bag_tom_hanks_again) = acc_tom_hanks
   \<and> map_option p_nodes (reconstruct sample_builtins {''p'', ''m''} {''r''} [row_tom_hanks, row_tom_hanks])
       = Some (p_nodes payload_tom_hanks)"
proof -
  let ?nv = "{''p'', ''m''}" and ?rv = "{''r''}"
  have h1: "reconstruct sample_builtins ?nv ?rv [row_tom_hanks] = Some payload_tom_hanks"
    by (rule reconstruct_tom_hanks)
  have c1: "distinct (map n_id (p_nodes payload_tom_hanks))"
    using nodes_deduplicated_idempotent [THEN conjunct1, THEN mp, OF h1] .
  have h2: "''p'' \<in> ?nv" by simp
  have h3: "node_id_prop sample_builtins bag_tom_hanks_again = Some (PStr ''Tom Hanks'')"
    by (simp add: node_id_prop_def py_or_def dict_get_def dict_get_default_def bag_tom_hanks_again_def)
  have h4: "''p'' @ ''_'' @ py_str sample_builtins (PStr ''Tom Hanks'') \<in> fst ` set (nodes acc_tom_hanks)"
    by (simp add: acc_tom_hanks_def payload_tom_hanks_def py_str_def)
  have c2: "process_value sample_builtins ?nv ?rv [''p'' \<mapsto> [PStr ''Actor'']] acc_tom_hanks
        (''p'', PDict bag_tom_hanks_again) = acc_tom_hanks"
    using nodes_deduplicated_idempotent [THEN conjunct2, THEN conjunct1, THEN mp, THEN mp, THEN mp,
        OF h2 h3 h4] .
  have c3: "map_option p_nodes (reconstruct sample_builtins ?nv ?rv [row_tom_hanks, row_tom_hanks])
       = Some (p_nodes payload_tom_hanks)"
    using nodes_deduplicated_idempotent [THEN conjunct2, THEN conjunct2, THEN conjunct2,
        of sample_builtins ?nv ?rv "[row_tom_hanks]"] h1
    by simp
  show ?thesis
    using h1 c1 h2 h3 h4 c2 c3 by (intro conjI)
qed


text \<open>
  Claim C7, as amended. The display label is the first true property among \<^verbatim>\<open>name\<close>,
  \<^verbatim>\<open>title\<close>, \<^verbatim>\<open>id\<close>, in this order, and the variable name when none is true; the synthetic
  id takes \<^verbatim>\<open>name\<close>, \<^verbatim>\<open>id\<close>, \<^verbatim>\<open>title\<close>. So for a bag with a true \<^verbatim>\<open>id\<close> and no true
  \<^verbatim>\<open>name\<close>, the id is built from \<^verbatim>\<open>id\<close>, while the label is the \<^verbatim>\<open>title\<close> when that is
  true and the \<^verbatim>\<open>id\<close> only otherwise. A node that is new gets this label, as text.
\<close>

theorem display_label_order:
  "(truthy (dict_get d ''name'') \<longrightarrow> display_label key d = dict_get d ''name'')
   \<and> (\<not> truthy (dict_get d ''name'') \<longrightarrow> truthy (dict_get d ''title'') \<longrightarrow>
        display_label key d = dict_get d ''title'')
   \<and> (\<not> truthy (dict_get d ''name'') \<longrightarrow> \<not> truthy (dict_get d ''title'') \<longrightarrow>
        truthy (dict_get d ''id'') \<longrightarrow> display_label key d = dict_get d ''id'')
   \<and> (\<not> truthy (dict_get d ''name'') \<longrightarrow> \<not> truthy (dict_get d ''title'') \<longrightarrow>
        \<not> truthy (dict_get d ''id'') \<longrightarrow> display_label key d = PStr key)
   \<and> (\<not> truthy (dict_get d ''name'') \<longrightarrow> truthy (dict_get d ''id'') \<longrightarrow>
        node_id_prop b d = Some (dict_get d ''id''))
   \<and> (node_id_prop b d = Some p \<longrightarrow> key @ ''_'' @ py_str b p \<notin> fst ` set (nodes acc) \<longrightarrow>
        nodes (add_node b lm acc key d) =
          nodes acc @
          [(key @ ''_'' @ py_str b p,
            \<lparr>n_id = key @ ''_'' @ py_str b p,
             n_label = py_str b (display_label key d),
             n_labels = (case lm key of Some ls \<Rightarrow> ls | None \<Rightarrow> [PStr (capitalize key)]),
             n_properties = serialize_items b d\<rparr>)])"
  by (simp add: display_label_def node_id_prop_def py_or_def add_node_def Let_def)

theorem display_label_order_witness:
  "\<not> truthy (dict_get bag_id_title ''name'') \<and> truthy (dict_get bag_id_title ''title'')
   \<and> truthy (dict_get bag_id_title ''id'')
   \<and> display_label ''m'' bag_id_title = PStr ''Big''
   \<and> node_id_prop sample_builtins bag_id_title = Some (PStr ''tt0094737'')
   \<and> nodes (add_node sample_builtins Map.empty empty_acc ''m'' bag_id_title) = [(''m_tt0094737'', node_movie_big)]
   \<and> \<not> truthy (dict_get bag_id_only ''title'')
   \<and> display_label ''m'' bag_id_only = PInt 7"
proof -
  have g: "dict_get bag_id_title ''name'' = PNone" "dict_get bag_id_title ''title'' = PStr ''Big''"
    "dict_get bag_id_title ''id'' = PStr ''tt0094737''"
    by (simp_all add: dict_get_def dict_get_default_def bag_id_title_def)
  have g': "dict_get bag_id_only ''name'' = PNone" "dict_get bag_id_only ''title'' = PNone"
    "dict_get bag_id_only ''id'' = PInt 7"
    by (simp_all add: dict_get_def dict_get_default_def bag_id_only_def)
  have h: "\<not> truthy (dict_get bag_id_title ''name'')" "truthy (dict_get bag_id_title ''title'')"
    "truthy (dict_get bag_id_title ''id'')"
    by (simp_all add: g)
  have h': "\<not> truthy (dict_get bag_id_only ''name'')" "\<not> truthy (dict_get bag_id_only ''title'')"
    "truthy (dict_get bag_id_only ''id'')"
    by (simp_all add: g')
  have c1: "display_label ''m'' bag_id_title = PStr ''Big''"
    using display_label_order [THEN conjunct2, THEN conjunct1, THEN mp, THEN mp, OF h(1) h(2), of "''m''"]
    by (simp add: g)
  have c2: "node_id_prop sample_builtins bag_id_title = Some (PStr ''tt0094737'')"
    using display_label_order [THEN conjunct2, THEN conjunct2, THEN conjunct2, THEN conjunct2,
        THEN conjunct1, THEN mp, THEN mp, OF h(1) h(3), of sample_builtins]
    by (simp add: g)
  have fresh: "''m'' @ ''_'' @ py_str sample_builtins (PStr ''tt0094737'') \<notin> fst ` set (nodes empty_acc)"
    by (simp add: empty_acc_def)
  have c3: "nodes (add_node sample_builtins Map.empty empty_acc ''m'' bag_id_title) = [(''m_tt0094737'', node_movie_big)]"
    unfolding display_label_order [THEN conjunct2, THEN conjunct2, THEN conjunct2, THEN conjunct2,
        THEN conjunct2, THEN mp, THEN mp, OF c2 fresh] c1
    by (simp add: empty_acc_def py_str_def node_movie_big_def serialize_items_def bag_id_title_def
          capitalize_def to_upper_def ascii_lowercase_def ascii_uppercase_def)
  have c4: "display_label ''m'' bag_id_only = PInt 7"
    using display_label_order [THEN conjunct2, THEN conjunct2, THEN conjunct1, THEN mp, THEN mp, THEN mp,
        OF h', of "''m''"]
    by (simp add: g')
  show ?thesis
    using h c1 c2 c3 h'(2) c4 by (intro conjI)
qed

text \<open>
  The claim as first stated fails for a bag with an \<^verbatim>\<open>id\<close> and a \<^verbatim>\<open>title\<close> and no
  \<^verbatim>\<open>name\<close>: the label is the title.
\<close>

theorem display_label_title_counterexample:
  "map_of bag_id_title ''name'' = None
   \<and> map_of bag_id_title ''id'' = Some (PStr ''tt0094737'')
   \<and> display_label ''m'' bag_id_title = PStr ''Big''
   \<and> display_label ''m'' bag_id_title \<noteq> dict_get bag_id_title ''id''
   \<and> reconstruct sample_builtins {''m''} {} [[(''m'', PDict bag_id_title)]]
       = Some \<lparr>p_nodes = [node_movie_big], p_relationships = []\<rparr>"
  unfolding bag_id_title_def node_movie_big_def sample_builtins_def by code_simp


text \<open>
  Claim C10, as amended. For a name that is both in \<open>node_vars\<close> and in \<open>rel_vars\<close> and
  does not end in \<^verbatim>\<open>_labels\<close>, a property bag in that column goes to the node branch.
  Whatever the name, a column named by a node variable never changes the relationships,
  and the whole reconstruction is the one with the node variables removed from
  \<open>rel_vars\<close>: the membership test for nodes comes first.
\<close>

theorem node_check_precedes:
  "(key \<in> nv \<longrightarrow> key \<in> rv \<longrightarrow> \<not> suffix ''_labels'' key \<longrightarrow>
      process_value b nv rv lm acc (key, PDict d) = add_node b lm acc key d)
   \<and> (key \<in> nv \<longrightarrow> relationships (process_value b nv rv lm acc (key, v)) = relationships acc)
   \<and> process_rows b nv rv acc rows = process_rows b nv (rv - nv) acc rows"
proof (intro conjI impI)
  show "process_value b nv rv lm acc (key, PDict d) = add_node b lm acc key d"
    if "key \<in> nv" "key \<in> rv" "\<not> suffix ''_labels'' key"
    using that by (simp add: process_value_def)
  show "relationships (process_value b nv rv lm acc (key, v)) = relationships acc" if "key \<in> nv"
    using that by (simp add: process_value_relationships appends_relationship_def split: pyval.splits)
  show "process_rows b nv rv acc rows = process_rows b nv (rv - nv) acc rows"
    by (rule process_rows_rel_vars_minus)
qed

theorem node_check_precedes_witness:
  "''a'' \<in> {''a'', ''b''} \<and> ''a'' \<in> {''a''} \<and> \<not> suffix ''_labels'' ''a''
   \<and> process_value sample_builtins {''a'', ''b''} {''a''} Map.empty empty_acc (''a'', PDict bag_named_endpoints)
       = \<lparr>nodes = [(''a_A'', node_a)], relationships = []\<rparr>"
proof -
  have h: "''a'' \<in> {''a'', ''b''}" "''a'' \<in> {''a''}" "\<not> suffix ''_labels'' ''a''"
    by (simp_all add: suffix_def)
  have "add_node sample_builtins Map.empty empty_acc ''a'' bag_named_endpoints
          = \<lparr>nodes = [(''a_A'', node_a)], relationships = []\<rparr>"
    unfolding bag_named_endpoints_def node_a_def sample_builtins_def by code_simp
  then have "process_value sample_builtins {''a'', ''b''} {''a''} Map.empty empty_acc (''a'', PDict bag_named_endpoints)
       = \<lparr>nodes = [(''a_A'', node_a)], relationships = []\<rparr>"
    using node_check_precedes [THEN conjunct1, THEN mp, THEN mp, THEN mp, OF h,
        of sample_builtins Map.empty empty_acc bag_named_endpoints]
    by simp
  with h show ?thesis by (intro conjI)
qed

text \<open>
  The claim as first stated fails for a name that ends in \<^verbatim>\<open>_labels\<close>: its column is
  skipped before either membership test, so the bag is not treated as a node.
\<close>

theorem labels_suffix_name_counterexample:
  "''x_labels'' \<in> {''x_labels''}
   \<and> process_value sample_builtins {''x_labels''} {''x_labels''} Map.empty empty_acc
        (''x_labels'', PDict [(''name'', PStr ''A'')]) = empty_acc
   \<and> nodes (add_node sample_builtins Map.empty empty_acc ''x_labels'' [(''name'', PStr ''A'')]) \<noteq> []
   \<and> reconstruct sample_builtins {''x_labels''} {''x_labels''} [[(''x_labels'', PDict [(''name'', PStr ''A'')])]] = None"
  by (simp add: process_value_def add_node_def node_id_prop_def py_or_def dict_get_def
        dict_get_default_def reconstruct_def process_rows_def process_record_def collect_labels_def
        empty_acc_def Let_def suffix_def)

section \<open>Properties of the orchestrator\<close>

lemma extract_graph_data_raises:
  "extract_graph_data b graph_query q = Inl (Raised k e) \<Longrightarrow> k = BaseExceptionOnly"
  by (auto simp: extract_graph_data_def split: if_splits sum.splits py_exc.splits exc_class.splits
        prod.splits)

lemma read_steps_raises:
  "read_steps b self steps = Inl (Raised k e) \<Longrightarrow> k = BaseExceptionOnly"
  by (auto simp: read_steps_def extract_graph_data_of_def
        split: if_splits list.splits pyval.splits option.splits sum.splits
        dest: extract_graph_data_raises)

lemma handle_exception_raises:
  "handle_exception x = Inl (Raised k e) \<Longrightarrow> k = BaseExceptionOnly"
  by (auto simp: handle_exception_def split: py_exc.splits exc_class.splits if_splits)

lemma handle_exception_instance:
  "handle_exception (Raised ExceptionInstance e) =
     Inr (ErrorResponse (if sublist syntax_error_marker e then rephrase_message
                         else ''An error occurred: '' @ e))"
  by (simp add: handle_exception_def contains_def str_find_None_iff)

text \<open>
  Claim C3, as amended. When the chain raises an instance of \<^verbatim>\<open>Exception\<close> whose text
  contains the marker of a store syntax error, \<open>query\<close> returns the error dictionary
  with the fixed rephrase message; for any other text it returns the error dictionary
  with \<^verbatim>\<open>An error occurred: \<close> followed by the text. In both cases the dictionary has no
  key \<^verbatim>\<open>graph_data\<close>. No instance of \<^verbatim>\<open>Exception\<close> leaves \<open>query\<close>, whatever the chain
  and the graph executor do: an exception that leaves it is one that \<^verbatim>\<open>except Exception\<close>
  does not catch.
\<close>

theorem query_error_response:
  "(chain self = Some ainvoke \<longrightarrow> ainvoke question = Inl (Raised ExceptionInstance e) \<longrightarrow>
      (sublist syntax_error_marker e \<longrightarrow>
         query b self question = Inr (ErrorResponse rephrase_message))
      \<and> (\<not> sublist syntax_error_marker e \<longrightarrow>
           query b self question = Inr (ErrorResponse (''An error occurred: '' @ e)))
      \<and> (\<exists>r. query b self question = Inr r \<and> ''graph_data'' \<notin> set (response_keys r)
              \<and> graph_data_of r = None \<and> error_of r \<noteq> None))
   \<and> (query b self question = Inl (Raised k t) \<longrightarrow> k = BaseExceptionOnly)"
proof (intro conjI impI)
  assume c: "chain self = Some ainvoke" and r: "ainvoke question = Inl (Raised ExceptionInstance e)"
  have q: "query b self question =
      Inr (ErrorResponse (if sublist syntax_error_marker e then rephrase_message
                          else ''An error occurred: '' @ e))"
    by (simp add: query_def c r handle_exception_instance)
  show "query b self question = Inr (ErrorResponse rephrase_message)"
    if "sublist syntax_error_marker e"
    using that by (simp add: q)
  show "query b self question = Inr (ErrorResponse (''An error occurred: '' @ e))"
    if "\<not> sublist syntax_error_marker e"
    using that by (simp add: q)
  show "\<exists>r. query b self question = Inr r \<and> ''graph_data'' \<notin> set (response_keys r)
          \<and> graph_data_of r = None \<and> error_of r \<noteq> None"
    by (simp add: q response_keys_def graph_data_of_def error_of_def)
next
  assume "query b self question = Inl (Raised k t)"
  then show "k = BaseExceptionOnly"
    by (auto simp: query_def split: option.splits sum.splits prod.splits
          dest: handle_exception_raises)
qed

theorem query_error_response_witness:
  "sublist syntax_error_marker syntax_error_text
   \<and> query sample_builtins service_syntax_error ''Who acted in Big?'' = Inr (ErrorResponse rephrase_message)
   \<and> \<not> sublist syntax_error_marker ''Request timed out.''
   \<and> query sample_builtins service_timeout ''Who acted in Big?''
       = Inr (ErrorResponse ''An error occurred: Request timed out.'')
   \<and> query sample_builtins service_cancelled ''Who acted in Big?'' = Inl (Raised BaseExceptionOnly [])"
proof -
  have h3: "query sample_builtins service_cancelled ''Who acted in Big?'' = Inl (Raised BaseExceptionOnly [])"
    by (simp add: query_def service_cancelled_def handle_exception_def)
  have h1: "sublist syntax_error_marker syntax_error_text"
    unfolding syntax_error_marker_def syntax_error_text_def by code_simp
  have h2: "\<not> sublist syntax_error_marker ''Request timed out.''"
    unfolding syntax_error_marker_def by code_simp
  have ch1: "chain service_syntax_error = Some (\<lambda>question. Inl (Raised ExceptionInstance syntax_error_text))"
    by (simp add: service_syntax_error_def)
  have ch2: "chain service_timeout = Some (\<lambda>question. Inl (Raised ExceptionInstance ''Request timed out.''))"
    by (simp add: service_timeout_def)
  have c1: "query sample_builtins service_syntax_error ''Who acted in Big?'' = Inr (ErrorResponse rephrase_message)"
    by (rule query_error_response [THEN conjunct1, THEN mp, THEN mp, THEN conjunct1, THEN mp,
          OF ch1 refl h1])
  have "query sample_builtins service_timeout ''Who acted in Big?''
       = Inr (ErrorResponse (''An error occurred: '' @ ''Request timed out.''))"
    by (rule query_error_response [THEN conjunct1, THEN mp, THEN mp, THEN conjunct2, THEN conjunct1,
          THEN mp, OF ch2 refl h2])
  then have c2: "query sample_builtins service_timeout ''Who acted in Big?''
       = Inr (ErrorResponse ''An error occurred: Request timed out.'')"
    by simp
  show ?thesis
    using h1 c1 h2 c2 h3 by (intro conjI)
qed

text \<open>
  The claim as first stated fails for an exception that is not an instance of
  \<^verbatim>\<open>Exception\<close>: a cancellation raised while the chain is awaited, or an interrupt raised
  in the graph executor, leaves \<open>query\<close> and no response is returned.
\<close>

theorem query_cancelled_counterexample:
  "chain service_cancelled = Some (\<lambda>question. Inl (Raised BaseExceptionOnly []))
   \<and> query sample_builtins service_cancelled ''Who acted in Big?'' = Inl (Raised BaseExceptionOnly [])
   \<and> query sample_builtins service_interrupted_graph ''Who acted in Big?'' = Inl (Raised BaseExceptionOnly [])"
proof -
  have 1: "query sample_builtins service_cancelled ''Who acted in Big?'' = Inl (Raised BaseExceptionOnly [])"
    by (simp add: query_def service_cancelled_def handle_exception_def)
  have m: "contains ''MATCH'' (upper ''MATCH (p:Person) RETURN p.name'')"
    by code_simp
  have 2: "query sample_builtins service_interrupted_graph ''Who acted in Big?'' = Inl (Raised BaseExceptionOnly [])"
    using m
    by (simp add: query_def service_interrupted_graph_def handle_exception_def read_steps_def
          steps_of_def find_context_def dict_get_def dict_get_default_def extract_graph_data_of_def
          extract_graph_data_def Let_def)
  show ?thesis
    using 1 2 by (simp add: service_cancelled_def)
qed

end
